theory Spec2Isabelle
  imports Complex_Main "HOL-Library.Log_Nat"
begin

section \<open>Patch extraction (tiatoolbox/tools/patchextraction.py)\<close>

text \<open>
  A shallow embedding of the patch extraction module. Python integers are \<open>int\<close> and
  exceptions are values of the type \<open>error\<close> returned on the left of a sum. In
  \<open>get_last_steps\<close>, whose arguments are arbitrary numbers, Python floats are IEEE
  doubles and the true division \<open>/\<close> rounds to the nearest double. In the patch
  geometry of \<open>extract_patches\<close>, \<^verbatim>\<open>int(k / 2)\<close> and \<^verbatim>\<open>int(np.sqrt(n))\<close> are computed
  on integers; this is what the doubles give for the sizes of an image, below \<open>2 ^ 53\<close>.
  \<open>extract_patches\<close> has two models: a function of the values of its arguments, and one
  that keeps the objects of the call in a store and refines the first.
\<close>

subsection \<open>Exceptions\<close>

text \<open>
  \<open>Exception msg\<close> is the plain \<^verbatim>\<open>raise Exception("...")\<close> of the module (the
  specification calls it InvalidInput). \<open>MethodNotSupported\<close> is the class imported from
  \<^verbatim>\<open>tiatoolbox.utils.exceptions\<close> (UnsupportedMethod and UnsupportedOperation in the
  specification), with the message it was raised with, if any. The others are raised
  by the interpreter and by numpy. \<open>ImreadError\<close> stands for whatever the image loader
  raises on a path it cannot read.
\<close>

datatype error =
    Exception string
  | MethodNotSupported "string option"
  | NotImplementedError
  | TypeError
  | ValueError
  | IndexError
  | AttributeError
  | ZeroDivisionError
  | OverflowError
  | ImreadError

subsection \<open>Number conversions\<close>

text \<open>\<^verbatim>\<open>int(x)\<close> of a float truncates towards zero.\<close>

definition py_int :: "real \<Rightarrow> int" where
  "py_int x = (if 0 \<le> x then \<lfloor>x\<rfloor> else \<lceil>x\<rceil>)"

text \<open>
  \<^verbatim>\<open>int(k / 2)\<close> for an integer \<open>k\<close>, as an integer computation: the quotient
  truncated towards zero (Isabelle's \<open>div\<close> rounds down).
\<close>

definition int_half :: "int \<Rightarrow> int" where
  "int_half k = (if 0 \<le> k then k div 2 else - ((- k) div 2))"

subsection \<open>Python numbers\<close>

text \<open>
  The arguments of \<open>get_last_steps\<close> are not converted or checked, so they are any
  Python numbers: an \<^verbatim>\<open>int\<close>, which is unbounded, or a \<^verbatim>\<open>float\<close>, which is an IEEE
  double. A double is a finite value (a rational number), an infinity or a nan. The
  sign of a zero is not kept: \<open>get_last_steps\<close> returns an integer or raises, and
  neither depends on it.
\<close>

datatype pyfloat = Finite rat | PosInf | NegInf | NaN

datatype pynum = PyInt int | PyFloat pyfloat

text \<open>\<open>pow2 k\<close> is \<open>2\<close> to the power \<open>k\<close>, for an integer \<open>k\<close> of either sign.\<close>

definition pow2 :: "int \<Rightarrow> rat" where
  "pow2 k = (if 0 \<le> k then 2 ^ nat k else 1 / 2 ^ nat (- k))"

text \<open>
  The binary exponent of a positive rational \<open>x\<close>: the \<open>e\<close> with
  \<open>2 ^ e \<le> x < 2 ^ (e + 1)\<close>. The difference \<open>k\<close> of the bit lengths of numerator and
  denominator is \<open>e\<close> or \<open>e + 1\<close>.
\<close>

definition binary_exponent :: "rat \<Rightarrow> int" where
  "binary_exponent x =
     (let (n, d) = quotient_of x;
          k = bitlen n - bitlen d
      in if pow2 k \<le> x then k else k - 1)"

text \<open>Rounding to the nearest integer, a tie to the even one.\<close>

definition round_half_even :: "rat \<Rightarrow> int" where
  "round_half_even x =
     (let f = \<lfloor>x\<rfloor>;
          r = x - of_int f
      in if r < 1 / 2 then f
         else if 1 / 2 < r then f + 1
         else if even f then f else f + 1)"

text \<open>
  Rounding to the nearest double, a tie to the even significand: a double has 53
  significant bits, so the spacing at \<open>x\<close> is \<open>2 ^ (e - 52)\<close>, and \<open>2 ^ (- 1074)\<close> in the
  subnormal range; a result of magnitude \<open>2 ^ 1024\<close> or more is an infinity.
\<close>

definition round_double :: "rat \<Rightarrow> pyfloat" where
  "round_double x =
     (if x = 0 then Finite 0
      else
        let e = binary_exponent \<bar>x\<bar>;
            g = max (e - 52) (- 1074);
            y = of_int (round_half_even (x / pow2 g)) * pow2 g
        in if 2 ^ 1024 \<le> y then PosInf
           else if y \<le> - (2 ^ 1024) then NegInf
           else Finite y)"

text \<open>
  The conversion of an \<^verbatim>\<open>int\<close> operand of a float operation: correctly rounded, and
  OverflowError where the result would be an infinity.
\<close>

definition float_of_int :: "int \<Rightarrow> error + pyfloat" where
  "float_of_int k =
     (case round_double (of_int k) of
        Finite y \<Rightarrow> Inr (Finite y)
      | _ \<Rightarrow> Inl OverflowError)"

fun as_float :: "pynum \<Rightarrow> error + pyfloat" where
  "as_float (PyInt k) = float_of_int k"
| "as_float (PyFloat x) = Inr x"

text \<open>
  Float subtraction, multiplication and division are those of the machine: they
  round, overflow to an infinity and give nan on \<open>inf - inf\<close>, \<open>0 * inf\<close> and
  \<open>inf / inf\<close>, without raising. \<open>float_div\<close> is applied to a divisor other than zero
  only.
\<close>

fun float_sub :: "pyfloat \<Rightarrow> pyfloat \<Rightarrow> pyfloat" where
  "float_sub (Finite x) (Finite y) = round_double (x - y)"
| "float_sub NaN _ = NaN"
| "float_sub _ NaN = NaN"
| "float_sub PosInf PosInf = NaN"
| "float_sub NegInf NegInf = NaN"
| "float_sub PosInf _ = PosInf"
| "float_sub NegInf _ = NegInf"
| "float_sub (Finite x) PosInf = NegInf"
| "float_sub (Finite x) NegInf = PosInf"

fun float_neg :: "pyfloat \<Rightarrow> pyfloat" where
  "float_neg (Finite x) = Finite (- x)"
| "float_neg PosInf = NegInf"
| "float_neg NegInf = PosInf"
| "float_neg NaN = NaN"

fun float_mul :: "pyfloat \<Rightarrow> pyfloat \<Rightarrow> pyfloat" where
  "float_mul (Finite x) (Finite y) = round_double (x * y)"
| "float_mul NaN _ = NaN"
| "float_mul _ NaN = NaN"
| "float_mul (Finite x) z = (if x = 0 then NaN else if 0 < x then z else float_neg z)"
| "float_mul z (Finite y) = (if y = 0 then NaN else if 0 < y then z else float_neg z)"
| "float_mul PosInf z = z"
| "float_mul NegInf z = float_neg z"

fun float_div :: "pyfloat \<Rightarrow> pyfloat \<Rightarrow> pyfloat" where
  "float_div (Finite x) (Finite y) = round_double (x / y)"
| "float_div NaN _ = NaN"
| "float_div _ NaN = NaN"
| "float_div (Finite x) _ = Finite 0"
| "float_div z (Finite y) = (if 0 < y then z else float_neg z)"
| "float_div _ _ = NaN"

text \<open>
  The operators \<^verbatim>\<open>-\<close> and \<^verbatim>\<open>*\<close>: exact on two integers, the float operation after
  conversion otherwise.
\<close>

fun py_sub :: "pynum \<Rightarrow> pynum \<Rightarrow> error + pynum" where
  "py_sub (PyInt a) (PyInt b) = Inr (PyInt (a - b))"
| "py_sub x y =
     (case as_float x of
        Inl e \<Rightarrow> Inl e
      | Inr fx \<Rightarrow>
          (case as_float y of
             Inl e \<Rightarrow> Inl e
           | Inr fy \<Rightarrow> Inr (PyFloat (float_sub fx fy))))"

fun py_mul :: "pynum \<Rightarrow> pynum \<Rightarrow> error + pynum" where
  "py_mul (PyInt a) (PyInt b) = Inr (PyInt (a * b))"
| "py_mul x y =
     (case as_float x of
        Inl e \<Rightarrow> Inl e
      | Inr fx \<Rightarrow>
          (case as_float y of
             Inl e \<Rightarrow> Inl e
           | Inr fy \<Rightarrow> Inr (PyFloat (float_mul fx fy))))"

text \<open>
  The true division \<^verbatim>\<open>/\<close> always gives a float. On two integers it is the exact
  quotient correctly rounded, ZeroDivisionError on a zero divisor and OverflowError
  where the quotient is too large for a double. With a float operand it converts, raises
  ZeroDivisionError on a zero divisor and divides as the machine does.
\<close>

fun py_truediv :: "pynum \<Rightarrow> pynum \<Rightarrow> error + pyfloat" where
  "py_truediv (PyInt a) (PyInt b) =
     (if b = 0 then Inl ZeroDivisionError
      else
        (case round_double (of_int a / of_int b) of
           Finite y \<Rightarrow> Inr (Finite y)
         | _ \<Rightarrow> Inl OverflowError))"
| "py_truediv x y =
     (case as_float x of
        Inl e \<Rightarrow> Inl e
      | Inr fx \<Rightarrow>
          (case as_float y of
             Inl e \<Rightarrow> Inl e
           | Inr fy \<Rightarrow>
               if fy = Finite 0 then Inl ZeroDivisionError
               else Inr (float_div fx fy)))"

text \<open>
  \<^verbatim>\<open>int(x)\<close> truncates a float towards zero, \<^verbatim>\<open>math.ceil(x)\<close> rounds it up; both give
  an \<^verbatim>\<open>int\<close>, and raise ValueError on a nan and OverflowError on an infinity.
\<close>

fun int_of_float :: "pyfloat \<Rightarrow> error + int" where
  "int_of_float (Finite x) = Inr (if 0 \<le> x then \<lfloor>x\<rfloor> else \<lceil>x\<rceil>)"
| "int_of_float NaN = Inl ValueError"
| "int_of_float _ = Inl OverflowError"

fun math_ceil :: "pyfloat \<Rightarrow> error + int" where
  "math_ceil (Finite x) = Inr \<lceil>x\<rceil>"
| "math_ceil NaN = Inl ValueError"
| "math_ceil _ = Inl OverflowError"

fun int_of_num :: "pynum \<Rightarrow> error + int" where
  "int_of_num (PyInt k) = Inr k"
| "int_of_num (PyFloat x) = int_of_float x"

subsection \<open>PatchExtractor.get_last_steps\<close>

text \<open>
  \<^verbatim>\<open>nr_step = math.ceil((image_dim - label_patch_dim) / stride)\<close>,
  \<^verbatim>\<open>last_step = (nr_step + 1) * stride\<close>, \<^verbatim>\<open>return int(last_step)\<close>.
  The method does not use \<open>self\<close>.
\<close>

definition get_last_steps :: "pynum \<Rightarrow> pynum \<Rightarrow> pynum \<Rightarrow> error + int" where
  "get_last_steps image_dim label_patch_dim stride =
     (case py_sub image_dim label_patch_dim of
        Inl e \<Rightarrow> Inl e
      | Inr difference \<Rightarrow>
          (case py_truediv difference stride of
             Inl e \<Rightarrow> Inl e
           | Inr ratio \<Rightarrow>
               (case math_ceil ratio of
                  Inl e \<Rightarrow> Inl e
                | Inr nr_step \<Rightarrow>
                    (case py_mul (PyInt (nr_step + 1)) stride of
                       Inl e \<Rightarrow> Inl e
                     | Inr last_step \<Rightarrow> int_of_num last_step))))"

text \<open>
  The contract in the words of the specification: the integer truncation of
  \<open>(ceil((image_dim - patch_dim) / stride) + 1) * stride\<close>, in exact arithmetic.
\<close>

definition last_step_spec :: "int \<Rightarrow> int \<Rightarrow> int \<Rightarrow> int" where
  "last_step_spec image_dim patch_dim stride =
     py_int ((real_of_int \<lceil>real_of_int (image_dim - patch_dim) / real_of_int stride\<rceil> + 1)
             * real_of_int stride)"

subsection \<open>Classes and constructors\<close>

text \<open>
  The classes of the module and their bases. \<open>mro\<close> is the method resolution order;
  \<open>defines_init\<close> says whether the class body has an \<^verbatim>\<open>__init__\<close> of its own
  (\<open>ABC\<close> has none; \<open>object\<close> has the built-in one).
\<close>

datatype pyclass =
    object_class
  | ABC_class
  | PatchExtractor_class
  | FixedWindowPatchExtractor_class
  | VariableWindowPatchExtractor_class
  | PointsPatchExtractor_class

fun mro :: "pyclass \<Rightarrow> pyclass list" where
  "mro object_class = [object_class]"
| "mro ABC_class = [ABC_class, object_class]"
| "mro PatchExtractor_class = [PatchExtractor_class, ABC_class, object_class]"
| "mro FixedWindowPatchExtractor_class =
     [FixedWindowPatchExtractor_class, PatchExtractor_class, ABC_class, object_class]"
| "mro VariableWindowPatchExtractor_class =
     [VariableWindowPatchExtractor_class, PatchExtractor_class, ABC_class, object_class]"
| "mro PointsPatchExtractor_class =
     [PointsPatchExtractor_class, PatchExtractor_class, ABC_class, object_class]"

fun defines_init :: "pyclass \<Rightarrow> bool" where
  "defines_init ABC_class = False"
| "defines_init _ = True"

text \<open>
  The points handed to the point-centered extractor: a two-dimensional integer
  \<open>ndarray\<close> (one row per point: label, x, y), \<open>None\<close> (the default of the factory), or
  any other object (a data frame, a path, a list). Arrays of another rank are not
  modelled.
\<close>

datatype points_arg =
    PointsNdarray "int list list"
  | PointsNone
  | PointsOther

text \<open>An instance: its class and its attribute dictionary, in assignment order.\<close>

datatype attr = IntAttr int | PointsAttr points_arg | NoneAttr

datatype pyinstance = Instance pyclass "(string \<times> attr) list"

text \<open>
  \<^verbatim>\<open>object.__init__(self, **kwargs)\<close>: none of the classes here overrides
  \<^verbatim>\<open>__new__\<close>, so CPython raises TypeError as soon as there is an argument besides
  \<open>self\<close>; otherwise it sets nothing.
\<close>

definition object_init ::
  "(string \<times> attr) list \<Rightarrow> (string \<times> attr) list \<Rightarrow> error + (string \<times> attr) list" where
  "object_init kwargs dict = (if kwargs = [] then Inr dict else Inl TypeError)"

text \<open>
  \<^verbatim>\<open>super(cls, self).__init__\<close> is the first \<^verbatim>\<open>__init__\<close> found in the MRO of
  the instance's class strictly after \<open>cls\<close>.
\<close>

definition super_lookup :: "pyclass \<Rightarrow> pyclass \<Rightarrow> pyclass option" where
  "super_lookup cls self_class =
     find defines_init (tl (dropWhile (\<lambda>c. c \<noteq> cls) (mro self_class)))"

text \<open>
  All three subclasses call \<^verbatim>\<open>super(PatchExtractor, self).__init__(...)\<close> with
  keyword arguments: the lookup starts after \<open>PatchExtractor\<close>, so
  \<^verbatim>\<open>PatchExtractor.__init__\<close> itself is skipped. After \<open>PatchExtractor\<close> every MRO
  holds \<open>ABC\<close> and \<open>object\<close> only.
\<close>

definition super_PatchExtractor_init ::
  "pyclass \<Rightarrow> (string \<times> attr) list \<Rightarrow> (string \<times> attr) list \<Rightarrow> error + (string \<times> attr) list" where
  "super_PatchExtractor_init self_class kwargs dict =
     (case super_lookup PatchExtractor_class self_class of
        Some object_class \<Rightarrow> object_init kwargs dict
      | _ \<Rightarrow> Inl AttributeError)"

text \<open>
  \<^verbatim>\<open>FixedWindowPatchExtractor.__init__(self, img_patch_h, img_patch_w, stride_h=1, stride_w=1)\<close>:
  the super call, two assignments, then \<^verbatim>\<open>raise NotImplementedError\<close>.
\<close>

definition FixedWindowPatchExtractor_init :: "int \<Rightarrow> int \<Rightarrow> int \<Rightarrow> int \<Rightarrow> error + pyinstance" where
  "FixedWindowPatchExtractor_init img_patch_h img_patch_w stride_h stride_w =
     (case super_PatchExtractor_init FixedWindowPatchExtractor_class
             [(''img_patch_h'', IntAttr img_patch_h), (''img_patch_w'', IntAttr img_patch_w)] [] of
        Inl e \<Rightarrow> Inl e
      | Inr dict \<Rightarrow> Inl NotImplementedError)"

text \<open>
  \<^verbatim>\<open>VariableWindowPatchExtractor.__init__\<close>: the super call, four assignments
  (\<open>label_patch_h\<close> and \<open>label_patch_w\<close> default to \<open>None\<close>), then
  \<^verbatim>\<open>raise NotImplementedError\<close>.
\<close>

definition VariableWindowPatchExtractor_init ::
  "int \<Rightarrow> int \<Rightarrow> int \<Rightarrow> int \<Rightarrow> attr \<Rightarrow> attr \<Rightarrow> error + pyinstance" where
  "VariableWindowPatchExtractor_init img_patch_h img_patch_w stride_h stride_w label_patch_h label_patch_w =
     (case super_PatchExtractor_init VariableWindowPatchExtractor_class
             [(''img_patch_h'', IntAttr img_patch_h), (''img_patch_w'', IntAttr img_patch_w)] [] of
        Inl e \<Rightarrow> Inl e
      | Inr dict \<Rightarrow> Inl NotImplementedError)"

text \<open>
  \<^verbatim>\<open>PointsPatchExtractor.__init__(self, img_patch_h, img_patch_w, pad_y, pad_x,
  input_points, num_examples_per_patch=9)\<close>: the super call, then the two assignments of
  \<open>input_points\<close> and \<open>num_examples_per_patch\<close>.
\<close>

definition PointsPatchExtractor_init ::
  "int \<Rightarrow> int \<Rightarrow> int \<Rightarrow> int \<Rightarrow> points_arg \<Rightarrow> int \<Rightarrow> error + pyinstance" where
  "PointsPatchExtractor_init img_patch_h img_patch_w pad_y pad_x input_points num_examples_per_patch =
     (case super_PatchExtractor_init PointsPatchExtractor_class
             [(''img_patch_h'', IntAttr img_patch_h), (''img_patch_w'', IntAttr img_patch_w),
              (''pad_y'', IntAttr pad_y), (''pad_x'', IntAttr pad_x)] [] of
        Inl e \<Rightarrow> Inl e
      | Inr dict \<Rightarrow>
          Inr (Instance PointsPatchExtractor_class
                 (dict @ [(''input_points'', PointsAttr input_points),
                          (''num_examples_per_patch'', IntAttr num_examples_per_patch)])))"

subsection \<open>The factory get_patch_extractor\<close>

text \<open>
  \<^verbatim>\<open>str.lower()\<close> on the ASCII letters. (A Python string holds Unicode; no character
  outside ASCII lower-cases to a letter of the three method names, so the comparison
  below is decided by the ASCII letters alone.)
\<close>

definition lower_char :: "char \<Rightarrow> char" where
  "lower_char c =
     (case map_of (zip ''ABCDEFGHIJKLMNOPQRSTUVWXYZ'' ''abcdefghijklmnopqrstuvwxyz'') c of
        None \<Rightarrow> c
      | Some l \<Rightarrow> l)"

definition lower :: "string \<Rightarrow> string" where
  "lower s = map lower_char s"

text \<open>
  \<^verbatim>\<open>get_patch_extractor(method_name, img_patch_h=224, img_patch_w=224,
  input_points=None, pad_y=0, pad_x=0)\<close>. The stub constructors are called with their
  defaults \<open>stride_h = stride_w = 1\<close>, the point-centered one with its default
  \<open>num_examples_per_patch = 9\<close>. \<^verbatim>\<open>raise MethodNotSupported\<close> raises the class
  without a message.
\<close>

definition get_patch_extractor ::
  "string \<Rightarrow> int \<Rightarrow> int \<Rightarrow> points_arg \<Rightarrow> int \<Rightarrow> int \<Rightarrow> error + pyinstance" where
  "get_patch_extractor method_name img_patch_h img_patch_w input_points pad_y pad_x =
     (if lower method_name = ''point'' then
        PointsPatchExtractor_init img_patch_h img_patch_w pad_y pad_x input_points 9
      else if lower method_name = ''fixedwindow'' then
        FixedWindowPatchExtractor_init img_patch_h img_patch_w 1 1
      else if lower method_name = ''variablewindow'' then
        VariableWindowPatchExtractor_init img_patch_h img_patch_w 1 1 NoneAttr NoneAttr
      else Inl (MethodNotSupported None))"

text \<open>The call with every optional argument left out.\<close>

definition get_patch_extractor_default :: "string \<Rightarrow> error + pyinstance" where
  "get_patch_extractor_default method_name = get_patch_extractor method_name 224 224 PointsNone 0 0"

subsection \<open>Arrays\<close>

text \<open>
  An image is a three-dimensional \<open>ndarray\<close>: its shape (rows, columns, channels) and
  its items as nested lists, row by row. The shape is kept beside the items because an
  array with an empty axis still has one. \<open>wf_ndarray3\<close> says that the items fill the
  shape.
\<close>

datatype 'a ndarray3 = Ndarray3 (shape0: nat) (shape1: nat) (shape2: nat) (items: "'a list list list")

definition wf_ndarray3 :: "'a ndarray3 \<Rightarrow> bool" where
  "wf_ndarray3 a \<longleftrightarrow>
     length (items a) = shape0 a \<and>
     (\<forall>row \<in> set (items a). length row = shape1 a \<and> (\<forall>px \<in> set row. length px = shape2 a))"

text \<open>
  \<^verbatim>\<open>np.lib.pad(image, ((pad_y, pad_y), (pad_x, pad_x), (0, 0)), "symmetric")\<close>, as numpy
  documents it: along each padded axis the array is mirrored at its edges, the edge
  item included, again and again if the pad is longer than the axis, so that index
  \<open>i\<close> of the result holds item \<open>reflect_index n (i - pad)\<close> of an axis of length \<open>n\<close>.
  numpy raises ValueError on a negative pad width and on a pad of an empty axis.
\<close>

definition reflect_index :: "nat \<Rightarrow> int \<Rightarrow> nat" where
  "reflect_index n i = (let j = nat (i mod int (2 * n)) in if j < n then j else 2 * n - 1 - j)"

definition pad_symmetric :: "int \<Rightarrow> 'b list \<Rightarrow> 'b list" where
  "pad_symmetric p xs =
     map (\<lambda>i. xs ! reflect_index (length xs) (int i - p)) [0..<length xs + 2 * nat p]"

definition np_pad_symmetric :: "'a ndarray3 \<Rightarrow> int \<Rightarrow> int \<Rightarrow> error + 'a ndarray3" where
  "np_pad_symmetric img py px =
     (if py < 0 \<or> px < 0 then Inl ValueError
      else if (shape0 img = 0 \<and> 0 < py) \<or> (shape1 img = 0 \<and> 0 < px) then Inl ValueError
      else Inr (Ndarray3 (shape0 img + 2 * nat py) (shape1 img + 2 * nat px) (shape2 img)
                  (map (pad_symmetric px) (pad_symmetric py (items img)))))"

text \<open>
  A Python slice \<^verbatim>\<open>xs[start:stop]\<close>: a negative bound counts from the end, and both
  bounds are clipped to the length; nothing is raised.
\<close>

definition slice_bound :: "nat \<Rightarrow> int \<Rightarrow> nat" where
  "slice_bound n i = (if i < 0 then nat (max 0 (i + int n)) else min (nat i) n)"

definition py_slice :: "int \<Rightarrow> int \<Rightarrow> 'b list \<Rightarrow> 'b list" where
  "py_slice start stop xs =
     (let a = slice_bound (length xs) start; b = slice_bound (length xs) stop
      in take (b - a) (drop a xs))"

definition slice_len :: "nat \<Rightarrow> int \<Rightarrow> int \<Rightarrow> nat" where
  "slice_len n start stop = slice_bound n stop - slice_bound n start"

text \<open>\<^verbatim>\<open>image[start_h:end_h, start_w:end_w]\<close>\<close>

definition getitem_slices :: "'a ndarray3 \<Rightarrow> int \<Rightarrow> int \<Rightarrow> int \<Rightarrow> int \<Rightarrow> 'a ndarray3" where
  "getitem_slices img start_h end_h start_w end_w =
     Ndarray3 (slice_len (shape0 img) start_h end_h) (slice_len (shape1 img) start_w end_w)
       (shape2 img)
       (map (py_slice start_w end_w) (py_slice start_h end_h (items img)))"

text \<open>
  The assignment \<^verbatim>\<open>img_patches[iter_tot, :, :, :] = src\<close> into a slot of shape
  \<open>(h, w, d)\<close>: numpy broadcasts the source, so an axis of the source has the length of
  the slot's axis or length 1 (its one item is then repeated); any other shape raises
  ValueError. The function returns the new contents of the slot.
\<close>

definition broadcast_axis :: "nat \<Rightarrow> 'b list \<Rightarrow> 'b list" where
  "broadcast_axis n xs = (if length xs = n then xs else replicate n (hd xs))"

definition broadcast_to :: "nat \<Rightarrow> nat \<Rightarrow> nat \<Rightarrow> 'a ndarray3 \<Rightarrow> error + 'a list list list" where
  "broadcast_to h w d src =
     (if (shape0 src = h \<or> shape0 src = 1) \<and> (shape1 src = w \<or> shape1 src = 1)
         \<and> (shape2 src = d \<or> shape2 src = 1)
      then Inr (broadcast_axis h
                  (map (\<lambda>row. broadcast_axis w (map (broadcast_axis d) row)) (items src)))
      else Inl ValueError)"

text \<open>\<^verbatim>\<open>np.zeros((h, w, d))\<close>, one slot of \<open>img_patches\<close>.\<close>

definition zeros3 :: "nat \<Rightarrow> nat \<Rightarrow> nat \<Rightarrow> 'a::zero list list list" where
  "zeros3 h w d = replicate h (replicate w (replicate d 0))"

subsection \<open>The image loader\<close>

text \<open>
  Modelled from the spec: \<^verbatim>\<open>imread\<close> of \<^verbatim>\<open>tiatoolbox.utils.misc\<close>, which is not
  among the sources. The specification describes it as the external collaborator
  \<open>load_image(path) -> array\<close>, producing a three-dimensional array (rows, columns,
  channels). \<open>disk\<close> gives the array stored under each path the loader can read.
\<close>

definition imread :: "(string \<Rightarrow> 'a ndarray3 option) \<Rightarrow> string \<Rightarrow> error + 'a ndarray3" where
  "imread disk path = (case disk path of None \<Rightarrow> Inl ImreadError | Some img \<Rightarrow> Inr img)"

subsection \<open>PointsPatchExtractor\<close>

text \<open>
  The attributes that the methods read from \<open>self\<close>. (The attribute names of the
  source are the field names; they are declared here, after the constructors, whose
  parameters have the same names.)
\<close>

record PointsPatchExtractor =
  img_patch_h :: int
  img_patch_w :: int
  pad_y :: int
  pad_x :: int
  input_points :: points_arg
  num_examples_per_patch :: int

text \<open>
  The \<open>input_img\<close> argument of \<open>extract_patches\<close>: a \<open>str\<close>, a three-dimensional
  \<open>ndarray\<close>, an \<open>ndarray\<close> of another rank, or any other object.
\<close>

datatype 'a image_arg =
    ImageStr string
  | ImageNdarray "'a ndarray3"
  | ImageNdarrayOtherRank
  | ImageOther

text \<open>
  The local variables that the loops of \<open>extract_patches\<close> update. The lists
  \<open>labels\<close> and \<open>cell_id\<close> start with the placeholder \<^verbatim>\<open>[]\<close> in every slot, which
  is \<open>None\<close> here.
\<close>

record 'a loop_state =
  labels :: "int option list"
  cell_id :: "int option list"
  img_patches :: "'a list list list list"
  cell_tot :: int
  iter_tot :: nat

text \<open>A \<^verbatim>\<open>for\<close> loop whose body may raise: the first exception ends the loop.\<close>

fun for_each :: "'x list \<Rightarrow> ('x \<Rightarrow> 's \<Rightarrow> error + 's) \<Rightarrow> 's \<Rightarrow> error + 's" where
  "for_each [] body s = Inr s"
| "for_each (x # xs) body s =
     (case body x s of Inl e \<Rightarrow> Inl e | Inr s' \<Rightarrow> for_each xs body s')"

text \<open>
  The integer square root, by which the model computes \<^verbatim>\<open>int(np.sqrt(n) / 2)\<close> and
  \<^verbatim>\<open>int(np.sqrt(n) + start)\<close> (see \<open>sample_range_sqrt\<close> below for the two in terms
  of the real square root).
\<close>

fun floor_sqrt :: "nat \<Rightarrow> nat" where
  "floor_sqrt 0 = 0"
| "floor_sqrt (Suc n) =
     (let r = floor_sqrt n in if (r + 1) * (r + 1) \<le> Suc n then r + 1 else r)"

text \<open>
  Lines 203 to 209: \<open>start_location\<close> and \<open>end_location\<close>.
  \<^verbatim>\<open>root_num_examples = np.sqrt(n)\<close>, \<^verbatim>\<open>start_location = -int(root_num_examples / 2)\<close>,
  \<^verbatim>\<open>end_location = int(root_num_examples + start_location)\<close> when \<open>n > 1\<close>, and
  \<open>(0, 1)\<close> otherwise.
\<close>

definition sample_range :: "int \<Rightarrow> int \<times> int" where
  "sample_range n =
     (if 1 < n then
        let root_num_examples = int (floor_sqrt (nat n));
            start_location = - (root_num_examples div 2);
            end_location = root_num_examples + start_location
        in (start_location, end_location)
      else (0, 1))"

text \<open>\<^verbatim>\<open>range(start, stop)\<close>\<close>

definition py_range :: "int \<Rightarrow> int \<Rightarrow> int list" where
  "py_range start stop = [start..stop - 1]"

text \<open>
  Lines 213 to 220, the body of the inner loop. The three item assignments raise
  IndexError when \<open>iter_tot\<close> is beyond the end of the list or array.
\<close>

definition extract_one ::
  "int \<Rightarrow> int \<Rightarrow> 'a ndarray3 \<Rightarrow> int \<Rightarrow> int \<times> int \<Rightarrow> int \<Rightarrow> int \<Rightarrow> 'a loop_state
     \<Rightarrow> error + 'a loop_state" where
  "extract_one patch_h patch_w img cell_type cell_location h w s =
     (let start_h = fst cell_location - h - int_half (patch_h - 1);
          start_w = snd cell_location - w - int_half (patch_w - 1);
          end_h = start_h + patch_h;
          end_w = start_w + patch_w
      in if length (labels s) \<le> iter_tot s then Inl IndexError
         else if length (cell_id s) \<le> iter_tot s then Inl IndexError
         else if length (img_patches s) \<le> iter_tot s then Inl IndexError
         else
           case broadcast_to (nat patch_h) (nat patch_w) (shape2 img)
                  (getitem_slices img start_h end_h start_w end_w) of
             Inl e \<Rightarrow> Inl e
           | Inr patch \<Rightarrow>
               Inr (s\<lparr>labels := (labels s)[iter_tot s := Some cell_type],
                      cell_id := (cell_id s)[iter_tot s := Some (cell_tot s)],
                      img_patches := (img_patches s)[iter_tot s := patch],
                      iter_tot := iter_tot s + 1\<rparr>))"

text \<open>
  Lines 195 to 222, the body of the loop over the rows of \<open>input_points\<close>. A row is
  indexed at 0, then at 2, then at 1; an index beyond its end raises IndexError.
\<close>

definition extract_row ::
  "int \<Rightarrow> int \<Rightarrow> int \<Rightarrow> int \<Rightarrow> int \<Rightarrow> 'a ndarray3 \<Rightarrow> int list \<Rightarrow> 'a loop_state
     \<Rightarrow> error + 'a loop_state" where
  "extract_row patch_h patch_w py px n img row s =
     (if length row \<le> 2 then Inl IndexError
      else
        let cell_type = row ! 0;
            cell_location = (row ! 2 + py - 1, row ! 1 + px - 1);
            start_location = fst (sample_range n);
            end_location = snd (sample_range n)
        in case for_each (py_range start_location end_location)
                  (\<lambda>h. for_each (py_range start_location end_location)
                         (\<lambda>w. extract_one patch_h patch_w img cell_type cell_location h w)) s of
             Inl e \<Rightarrow> Inl e
           | Inr s' \<Rightarrow> Inr (s'\<lparr>cell_tot := cell_tot s' + 1\<rparr>))"

text \<open>
  Lines 169 to 223: what \<open>extract_patches\<close> does once it holds the points and the
  image as arrays. \<^verbatim>\<open>np.zeros\<close> raises ValueError on a negative dimension. The
  result is the triple \<open>(img_patches, labels, cell_id)\<close>.
\<close>

definition extract_from_arrays ::
  "PointsPatchExtractor \<Rightarrow> int list list \<Rightarrow> 'a::zero ndarray3
     \<Rightarrow> error + ('a list list list list \<times> int option list \<times> int option list)" where
  "extract_from_arrays self points image_in =
     (let patch_h = img_patch_h self; patch_w = img_patch_w self
      in case np_pad_symmetric image_in (pad_y self) (pad_x self) of
           Inl e \<Rightarrow> Inl e
         | Inr img \<Rightarrow>
             (let num_patches_img = int (length points) * num_examples_per_patch self
              in if num_patches_img < 0 \<or> patch_h < 0 \<or> patch_w < 0 then Inl ValueError
                 else
                   (case for_each points
                           (extract_row patch_h patch_w (pad_y self) (pad_x self)
                              (num_examples_per_patch self) img)
                           \<lparr>labels = replicate (nat num_patches_img) None,
                            cell_id = replicate (nat num_patches_img) None,
                            img_patches = replicate (nat num_patches_img)
                                            (zeros3 (nat patch_h) (nat patch_w) (shape2 img)),
                            cell_tot = 1,
                            iter_tot = 0\<rparr> of
                      Inl e \<Rightarrow> Inl e
                    | Inr s \<Rightarrow> Inr (img_patches s, labels s, cell_id s))))"

text \<open>
  \<open>extract_patches(self, input_img, ...)\<close>. The arguments \<open>labels\<close>, \<open>save_output\<close>,
  \<open>save_path\<close> and \<open>save_name\<close> are never read. Beside the outcome the model returns
  the paths handed to the image loader, in order: the only effect of the call outside
  its own local variables.
\<close>

definition extract_patches ::
  "(string \<Rightarrow> 'a ndarray3 option) \<Rightarrow> PointsPatchExtractor \<Rightarrow> 'a::zero image_arg
     \<Rightarrow> (error + ('a list list list list \<times> int option list \<times> int option list)) \<times> string list" where
  "extract_patches disk self input_img =
     (case input_points self of
        PointsNdarray points \<Rightarrow>
          (case input_img of
             ImageStr path \<Rightarrow>
               (case imread disk path of
                  Inl e \<Rightarrow> (Inl e, [path])
                | Inr img \<Rightarrow> (extract_from_arrays self points img, [path]))
           | ImageNdarray img \<Rightarrow> (extract_from_arrays self points img, [])
           | ImageNdarrayOtherRank \<Rightarrow> (Inl ValueError, [])
           | ImageOther \<Rightarrow> (Inl (Exception ''Please input correct image path or numpy array''), []))
      | _ \<Rightarrow> (Inl (Exception ''Please input correct csv, json path or csv data''), []))"

text \<open>
  \<open>merge_patches(self, patches=None)\<close> raises
  \<^verbatim>\<open>MethodNotSupported(message="Merge patches not supported for " "PointsPatchExtractor")\<close>;
  the two literals are one string.
\<close>

definition merge_patches ::
  "PointsPatchExtractor \<Rightarrow> 'p option \<Rightarrow> error + 'r" where
  "merge_patches self patches =
     Inl (MethodNotSupported (Some ''Merge patches not supported for PointsPatchExtractor''))"

subsection \<open>Vocabulary of the specification\<close>

text \<open>
  The error the specification calls InvalidInput is the plain \<open>Exception\<close> of the two
  \<^verbatim>\<open>raise Exception(...)\<close> statements of \<open>extract_patches\<close>.
\<close>

definition is_InvalidInput :: "error \<Rightarrow> bool" where
  "is_InvalidInput e = (case e of Exception msg \<Rightarrow> True | _ \<Rightarrow> False)"

definition raises_InvalidInput :: "error + 'r \<Rightarrow> bool" where
  "raises_InvalidInput r = (case r of Inl e \<Rightarrow> is_InvalidInput e | Inr v \<Rightarrow> False)"

text \<open>
  A concrete in-memory point collection is an \<open>ndarray\<close>
  (\<^verbatim>\<open>isinstance(self.input_points, np.ndarray)\<close>); an in-memory array or a file path
  is an \<open>ndarray\<close> or a \<open>str\<close>
  (\<^verbatim>\<open>type(input_img) == str\<close>, \<^verbatim>\<open>isinstance(input_img, np.ndarray)\<close>).
\<close>

definition is_ndarray_points :: "points_arg \<Rightarrow> bool" where
  "is_ndarray_points p = (case p of PointsNdarray rows \<Rightarrow> True | _ \<Rightarrow> False)"

definition is_str_or_ndarray :: "'a image_arg \<Rightarrow> bool" where
  "is_str_or_ndarray a = (case a of ImageOther \<Rightarrow> False | _ \<Rightarrow> True)"

text \<open>
  The offsets that the two inner loops run over:
  \<^verbatim>\<open>range(start_location, end_location)\<close>, the same for \<open>h\<close> and for \<open>w\<close>.
\<close>

definition sample_offsets :: "int \<Rightarrow> int list" where
  "sample_offsets n = py_range (fst (sample_range n)) (snd (sample_range n))"

text \<open>
  \<open>num_examples_per_patch\<close> has an odd integer square root. (The lemma
  \<open>is_odd_square_iff\<close> says so with the root quantified.)
\<close>

definition is_odd_square :: "int \<Rightarrow> bool" where
  "is_odd_square n \<longleftrightarrow>
     0 < n \<and> odd (floor_sqrt (nat n)) \<and> int (floor_sqrt (nat n)) * int (floor_sqrt (nat n)) = n"

text \<open>
  The \<open>h \<times> w\<close> window of an array whose top-left corner is at row \<open>y0\<close> and column
  \<open>x0\<close>.
\<close>

definition window :: "'a ndarray3 \<Rightarrow> int \<Rightarrow> int \<Rightarrow> int \<Rightarrow> int \<Rightarrow> 'a list list list" where
  "window img y0 x0 h w =
     map (\<lambda>row. take (nat w) (drop (nat x0) row)) (take (nat h) (drop (nat y0) (items img)))"

text \<open>
  The top-left corner that the specification gives for the point of \<open>row\<close>
  (label, x, y) and the offsets \<open>h\<close> and \<open>w\<close>:
  \<open>y + pad_y - 1 - h - floor((patch_h - 1) / 2)\<close> and
  \<open>x + pad_x - 1 - w - floor((patch_w - 1) / 2)\<close>.
\<close>

definition window_top :: "PointsPatchExtractor \<Rightarrow> int list \<Rightarrow> int \<Rightarrow> int" where
  "window_top self row h = row ! 2 + pad_y self - 1 - h - (img_patch_h self - 1) div 2"

definition window_left :: "PointsPatchExtractor \<Rightarrow> int list \<Rightarrow> int \<Rightarrow> int" where
  "window_left self row w = row ! 1 + pad_x self - 1 - w - (img_patch_w self - 1) div 2"

text \<open>The window lies inside the padded image.\<close>

definition window_inside :: "PointsPatchExtractor \<Rightarrow> 'a ndarray3 \<Rightarrow> int list \<Rightarrow> int \<Rightarrow> int \<Rightarrow> bool" where
  "window_inside self padded row h w \<longleftrightarrow>
     0 \<le> window_top self row h
     \<and> window_top self row h + img_patch_h self \<le> int (shape0 padded)
     \<and> 0 \<le> window_left self row w
     \<and> window_left self row w + img_patch_w self \<le> int (shape1 padded)"

text \<open>
  The array behind the image argument: the argument itself, or what the loader reads
  from the path.
\<close>

definition image_of :: "(string \<Rightarrow> 'a ndarray3 option) \<Rightarrow> 'a image_arg \<Rightarrow> 'a ndarray3 option" where
  "image_of disk input_img =
     (case input_img of ImageStr path \<Rightarrow> disk path | ImageNdarray img \<Rightarrow> Some img | _ \<Rightarrow> None)"

text \<open>
  A valid input of the point-centered extraction: the image is a three-dimensional
  array, the patch dimensions are positive, \<open>num_examples_per_patch\<close> is an odd
  square, the points are an \<open>ndarray\<close> whose rows have the three entries (label, x, y),
  the padding is one numpy accepts, and every window lies inside the padded image
  (the precondition that the specification documents: the code checks no bounds).
\<close>

definition valid_input :: "PointsPatchExtractor \<Rightarrow> 'a ndarray3 \<Rightarrow> bool" where
  "valid_input self img \<longleftrightarrow>
     wf_ndarray3 img \<and> 0 < img_patch_h self \<and> 0 < img_patch_w self
     \<and> is_odd_square (num_examples_per_patch self)
     \<and> (case input_points self of
          PointsNdarray points \<Rightarrow>
            (case np_pad_symmetric img (pad_y self) (pad_x self) of
               Inl e \<Rightarrow> False
             | Inr padded \<Rightarrow>
                 (\<forall>row \<in> set points. 3 \<le> length row
                    \<and> (\<forall>h \<in> set (sample_offsets (num_examples_per_patch self)).
                        \<forall>w \<in> set (sample_offsets (num_examples_per_patch self)).
                          window_inside self padded row h w)))
        | _ \<Rightarrow> False)"

subsection \<open>Auxiliary definitions for the proofs\<close>

text \<open>
  The loop state after the entries \<open>es\<close> (label, identifier, patch) have been written
  to the first slots of the \<open>N\<close> preallocated ones; \<open>z\<close> is the zero patch.
\<close>

definition filled ::
  "nat \<Rightarrow> 'a list list list \<Rightarrow> (int \<times> int \<times> 'a list list list) list \<Rightarrow> int \<Rightarrow> 'a loop_state" where
  "filled N z es ct =
     \<lparr>labels = map (\<lambda>e. Some (fst e)) es @ replicate (N - length es) None,
      cell_id = map (\<lambda>e. Some (fst (snd e))) es @ replicate (N - length es) None,
      img_patches = map (\<lambda>e. snd (snd e)) es @ replicate (N - length es) z,
      cell_tot = ct,
      iter_tot = length es\<rparr>"

text \<open>The entries written for one point, and for a list of points from identifier \<open>ct\<close> on.\<close>

definition point_entries ::
  "PointsPatchExtractor \<Rightarrow> 'a ndarray3 \<Rightarrow> int list \<Rightarrow> int \<Rightarrow> (int \<times> int \<times> 'a list list list) list" where
  "point_entries self padded row ct =
     concat (map (\<lambda>h. map (\<lambda>w. (row ! 0, ct,
                                 window padded (window_top self row h) (window_left self row w)
                                   (img_patch_h self) (img_patch_w self)))
                        (sample_offsets (num_examples_per_patch self)))
                 (sample_offsets (num_examples_per_patch self)))"

fun all_entries ::
  "PointsPatchExtractor \<Rightarrow> 'a ndarray3 \<Rightarrow> int \<Rightarrow> int list list \<Rightarrow> (int \<times> int \<times> 'a list list list) list" where
  "all_entries self padded ct [] = []"
| "all_entries self padded ct (row # rows) =
     point_entries self padded row ct @ all_entries self padded (ct + 1) rows"

text \<open>The three preallocated sequences have \<open>N\<close> slots.\<close>

definition slots :: "nat \<Rightarrow> 'a loop_state \<Rightarrow> bool" where
  "slots N s \<longleftrightarrow> length (labels s) = N \<and> length (cell_id s) = N \<and> length (img_patches s) = N"

subsection \<open>Example inputs\<close>

text \<open>
  A \<open>2 \<times> 2\<close> image with one channel, its symmetric padding by one pixel, and an
  extractor of \<open>2 \<times> 2\<close> patches around two points at \<open>x = 1\<close>, \<open>y = 1\<close> with the labels
  7 and 8.
\<close>

definition example_image :: "nat ndarray3" where
  "example_image = Ndarray3 2 2 1 [[[1], [2]], [[3], [4]]]"

definition example_padded :: "nat ndarray3" where
  "example_padded = Ndarray3 4 4 1
     [[[1], [1], [2], [2]], [[1], [1], [2], [2]], [[3], [3], [4], [4]], [[3], [3], [4], [4]]]"

definition example_extractor :: "int \<Rightarrow> PointsPatchExtractor" where
  "example_extractor n =
     \<lparr>img_patch_h = 2, img_patch_w = 2, pad_y = 1, pad_x = 1,
      input_points = PointsNdarray [[7, 1, 1], [8, 1, 1]], num_examples_per_patch = n\<rparr>"

subsection \<open>extract_patches with an explicit store\<close>

text \<open>
  The second model of \<open>extract_patches\<close> keeps the objects that the method can reach
  in a store, to tell which of them it writes to. The store is the list of the objects
  allocated so far; the address of an object is its index, and a new object goes to the
  end. The mutable objects of the method are the instance \<open>self\<close> with its six
  attributes, three-dimensional arrays (the image, the padded image), the
  two-dimensional integer array of the points, the four-dimensional array
  \<open>img_patches\<close>, the lists \<open>labels\<close> and \<open>cell_id\<close>, and the integer array
  \<open>cell_location\<close> of two items. Integers and strings are immutable and stay values.
\<close>

datatype points_ref = PointsNdarrayRef nat | PointsNoneRef | PointsOtherRef

datatype image_ref = ImageStrRef string | ImageNdarrayRef nat | ImageNdarrayOtherRankRef | ImageOtherRef

datatype 'a pyobj =
    Ndarray3Obj "'a ndarray3"
  | PointsObj "int list list"
  | PatchesObj "'a list list list list"
  | ListObj "int option list"
  | VectorObj "int list"
  | ExtractorObj int int int int points_ref int

definition lookup :: "'o list \<Rightarrow> nat \<Rightarrow> 'o option" where
  "lookup heap a = (if a < length heap then Some (heap ! a) else None)"

definition alloc :: "'o \<Rightarrow> 'o list \<Rightarrow> nat \<times> 'o list" where
  "alloc obj heap = (length heap, heap @ [obj])"

text \<open>
  The local variables that the loops rebind, beside the store. The other local
  variables are bound once and are parameters of the functions below; a variable that
  holds a mutable object holds its address.
\<close>

record 'a store_state =
  objects :: "'a pyobj list"
  cell_total :: int
  iter_total :: nat

text \<open>A \<^verbatim>\<open>for\<close> loop over a store: the first exception ends it, and the store stays as it is then.\<close>

fun for_each_store :: "'x list \<Rightarrow> ('x \<Rightarrow> 's \<Rightarrow> error option \<times> 's) \<Rightarrow> 's \<Rightarrow> error option \<times> 's" where
  "for_each_store [] body s = (None, s)"
| "for_each_store (x # xs) body s =
     (case body x s of (Some e, s') \<Rightarrow> (Some e, s') | (None, s') \<Rightarrow> for_each_store xs body s')"

text \<open>
  Item assignment and item access on the object at an address. A variable of the method
  never holds an object of another kind than the one it was bound to; the TypeError of
  these functions stands for that case, which no call reaches.
\<close>

definition setitem_list :: "nat \<Rightarrow> nat \<Rightarrow> int option \<Rightarrow> 'a pyobj list \<Rightarrow> error option \<times> 'a pyobj list" where
  "setitem_list r i v heap =
     (case lookup heap r of
        Some (ListObj xs) \<Rightarrow>
          if length xs \<le> i then (Some IndexError, heap)
          else (None, heap[r := ListObj (xs[i := v])])
      | _ \<Rightarrow> (Some TypeError, heap))"

definition setitem_vector :: "nat \<Rightarrow> nat \<Rightarrow> int \<Rightarrow> 'a pyobj list \<Rightarrow> error option \<times> 'a pyobj list" where
  "setitem_vector r i v heap =
     (case lookup heap r of
        Some (VectorObj xs) \<Rightarrow>
          if length xs \<le> i then (Some IndexError, heap)
          else (None, heap[r := VectorObj (xs[i := v])])
      | _ \<Rightarrow> (Some TypeError, heap))"

definition getitem_vector :: "nat \<Rightarrow> nat \<Rightarrow> 'a pyobj list \<Rightarrow> error + int" where
  "getitem_vector r i heap =
     (case lookup heap r of
        Some (VectorObj xs) \<Rightarrow> if length xs \<le> i then Inl IndexError else Inr (xs ! i)
      | _ \<Rightarrow> Inl TypeError)"

text \<open>\<^verbatim>\<open>cell_location[i] = cell_location[i] + pad - 1\<close>\<close>

definition shift_item :: "nat \<Rightarrow> nat \<Rightarrow> int \<Rightarrow> 'a pyobj list \<Rightarrow> error option \<times> 'a pyobj list" where
  "shift_item r i pad heap =
     (case getitem_vector r i heap of
        Inl e \<Rightarrow> (Some e, heap)
      | Inr v \<Rightarrow> setitem_vector r i (v + pad - 1) heap)"

text \<open>
  \<^verbatim>\<open>img_patches[i, :, :, :] = src\<close>: the items of \<open>src\<close> are copied, with broadcasting,
  into the slot, whose shape is \<open>(h, w, d)\<close>.
\<close>

definition setitem_patches ::
  "nat \<Rightarrow> nat \<Rightarrow> nat \<Rightarrow> nat \<Rightarrow> nat \<Rightarrow> 'a ndarray3 \<Rightarrow> 'a pyobj list \<Rightarrow> error option \<times> 'a pyobj list" where
  "setitem_patches r i h w d src heap =
     (case lookup heap r of
        Some (PatchesObj ps) \<Rightarrow>
          if length ps \<le> i then (Some IndexError, heap)
          else (case broadcast_to h w d src of
                  Inl e \<Rightarrow> (Some e, heap)
                | Inr patch \<Rightarrow> (None, heap[r := PatchesObj (ps[i := patch])]))
      | _ \<Rightarrow> (Some TypeError, heap))"

text \<open>
  Lines 213 to 220. \<^verbatim>\<open>image[start_h:end_h, start_w:end_w]\<close> is a view of the padded
  image, read at once by the assignment.
\<close>

definition extract_one_store ::
  "int \<Rightarrow> int \<Rightarrow> nat \<Rightarrow> nat \<Rightarrow> nat \<Rightarrow> nat \<Rightarrow> int \<Rightarrow> nat \<Rightarrow> int \<Rightarrow> int \<Rightarrow> 'a store_state
     \<Rightarrow> error option \<times> 'a store_state" where
  "extract_one_store patch_h patch_w image_r img_patches_r labels_r cell_id_r cell_type
       cell_location_r h w st =
     (case getitem_vector cell_location_r 0 (objects st) of
        Inl e \<Rightarrow> (Some e, st)
      | Inr y \<Rightarrow>
          (case getitem_vector cell_location_r 1 (objects st) of
             Inl e \<Rightarrow> (Some e, st)
           | Inr x \<Rightarrow>
               (let start_h = y - h - int_half (patch_h - 1);
                    start_w = x - w - int_half (patch_w - 1);
                    end_h = start_h + patch_h;
                    end_w = start_w + patch_w
                in case setitem_list labels_r (iter_total st) (Some cell_type) (objects st) of
                     (Some e, heap1) \<Rightarrow> (Some e, st\<lparr>objects := heap1\<rparr>)
                   | (None, heap1) \<Rightarrow>
                       (case setitem_list cell_id_r (iter_total st) (Some (cell_total st)) heap1 of
                          (Some e, heap2) \<Rightarrow> (Some e, st\<lparr>objects := heap2\<rparr>)
                        | (None, heap2) \<Rightarrow>
                            (case lookup heap2 image_r of
                               Some (Ndarray3Obj img) \<Rightarrow>
                                 (case setitem_patches img_patches_r (iter_total st)
                                         (nat patch_h) (nat patch_w) (shape2 img)
                                         (getitem_slices img start_h end_h start_w end_w) heap2 of
                                    (Some e, heap3) \<Rightarrow> (Some e, st\<lparr>objects := heap3\<rparr>)
                                  | (None, heap3) \<Rightarrow>
                                      (None, st\<lparr>objects := heap3, iter_total := iter_total st + 1\<rparr>))
                             | _ \<Rightarrow> (Some TypeError, st\<lparr>objects := heap2\<rparr>))))))"

text \<open>
  Lines 195 to 222 for the row of index \<open>k\<close>. The row is read from the points array in
  the store, \<^verbatim>\<open>np.array([row[2], row[1]], dtype=np.int)\<close> allocates \<open>cell_location\<close>, and
  \<^verbatim>\<open>self.pad_y\<close>, \<^verbatim>\<open>self.pad_x\<close> and \<^verbatim>\<open>self.num_examples_per_patch\<close> are read from the
  instance in the store.
\<close>

definition extract_row_store ::
  "nat \<Rightarrow> int \<Rightarrow> int \<Rightarrow> nat \<Rightarrow> nat \<Rightarrow> nat \<Rightarrow> nat \<Rightarrow> nat \<Rightarrow> nat \<Rightarrow> 'a store_state
     \<Rightarrow> error option \<times> 'a store_state" where
  "extract_row_store self_r patch_h patch_w input_points_r image_r img_patches_r labels_r cell_id_r
       k st =
     (case lookup (objects st) input_points_r of
        Some (PointsObj rows) \<Rightarrow>
          if length rows \<le> k then (Some IndexError, st)
          else if length (rows ! k) \<le> 2 then (Some IndexError, st)
          else
            (case lookup (objects st) self_r of
               Some (ExtractorObj _ _ py px _ n) \<Rightarrow>
                 (let row = rows ! k;
                      cell_type = row ! 0;
                      (cell_location_r, heap1) = alloc (VectorObj [row ! 2, row ! 1]) (objects st)
                  in case shift_item cell_location_r 0 py heap1 of
                       (Some e, heap2) \<Rightarrow> (Some e, st\<lparr>objects := heap2\<rparr>)
                     | (None, heap2) \<Rightarrow>
                         (case shift_item cell_location_r 1 px heap2 of
                            (Some e, heap3) \<Rightarrow> (Some e, st\<lparr>objects := heap3\<rparr>)
                          | (None, heap3) \<Rightarrow>
                              (let start_location = fst (sample_range n);
                                   end_location = snd (sample_range n)
                               in case for_each_store (py_range start_location end_location)
                                         (\<lambda>h. for_each_store (py_range start_location end_location)
                                                (\<lambda>w. extract_one_store patch_h patch_w image_r
                                                         img_patches_r labels_r cell_id_r cell_type
                                                         cell_location_r h w))
                                         (st\<lparr>objects := heap3\<rparr>) of
                                    (Some e, st') \<Rightarrow> (Some e, st')
                                  | (None, st') \<Rightarrow>
                                      (None, st'\<lparr>cell_total := cell_total st' + 1\<rparr>))))
             | _ \<Rightarrow> (Some AttributeError, st))
      | _ \<Rightarrow> (Some TypeError, st))"

text \<open>
  Lines 169 to 223. \<^verbatim>\<open>np.lib.pad\<close> and \<^verbatim>\<open>np.zeros\<close> return new arrays, and the two lists
  are new; the result is the triple of the addresses of \<open>img_patches\<close>, \<open>labels\<close> and
  \<open>cell_id\<close>.
\<close>

definition extract_from_arrays_store ::
  "nat \<Rightarrow> nat \<Rightarrow> nat \<Rightarrow> 'a::zero pyobj list \<Rightarrow> (error + nat \<times> nat \<times> nat) \<times> 'a pyobj list" where
  "extract_from_arrays_store self_r input_points_r input_r heap =
     (case lookup heap self_r of
        Some (ExtractorObj patch_h patch_w py px _ n) \<Rightarrow>
          (case lookup heap input_r of
             Some (Ndarray3Obj image_in) \<Rightarrow>
               (case np_pad_symmetric image_in py px of
                  Inl e \<Rightarrow> (Inl e, heap)
                | Inr padded \<Rightarrow>
                    (let (image_r, heap1) = alloc (Ndarray3Obj padded) heap
                     in case lookup heap1 input_points_r of
                          Some (PointsObj rows) \<Rightarrow>
                            (let num_patches_img = int (length rows) * n
                             in if num_patches_img < 0 \<or> patch_h < 0 \<or> patch_w < 0
                                then (Inl ValueError, heap1)
                                else
                                  (let (img_patches_r, heap2) =
                                         alloc (PatchesObj (replicate (nat num_patches_img)
                                                  (zeros3 (nat patch_h) (nat patch_w) (shape2 padded))))
                                           heap1;
                                       (labels_r, heap3) =
                                         alloc (ListObj (replicate (nat num_patches_img) None)) heap2;
                                       (cell_id_r, heap4) =
                                         alloc (ListObj (replicate (nat num_patches_img) None)) heap3
                                   in case for_each_store [0..<length rows]
                                             (extract_row_store self_r patch_h patch_w input_points_r
                                                image_r img_patches_r labels_r cell_id_r)
                                             \<lparr>objects = heap4, cell_total = 1, iter_total = 0\<rparr> of
                                        (Some e, st) \<Rightarrow> (Inl e, objects st)
                                      | (None, st) \<Rightarrow>
                                          (Inr (img_patches_r, labels_r, cell_id_r), objects st)))
                        | _ \<Rightarrow> (Inl TypeError, heap1)))
           | _ \<Rightarrow> (Inl TypeError, heap))
      | _ \<Rightarrow> (Inl AttributeError, heap))"

text \<open>
  \<open>extract_patches(self, input_img, ...)\<close> on a store: the outcome, the paths handed to
  the image loader, and the store after the call. The array that \<^verbatim>\<open>imread\<close> returns is
  a new object.
\<close>

definition extract_patches_store ::
  "(string \<Rightarrow> 'a ndarray3 option) \<Rightarrow> nat \<Rightarrow> image_ref \<Rightarrow> 'a::zero pyobj list
     \<Rightarrow> (error + nat \<times> nat \<times> nat) \<times> string list \<times> 'a pyobj list" where
  "extract_patches_store disk self_r input_img heap =
     (case lookup heap self_r of
        Some (ExtractorObj _ _ _ _ points _) \<Rightarrow>
          (case points of
             PointsNdarrayRef input_points_r \<Rightarrow>
               (case input_img of
                  ImageStrRef path \<Rightarrow>
                    (case imread disk path of
                       Inl e \<Rightarrow> (Inl e, [path], heap)
                     | Inr img \<Rightarrow>
                         (let (input_r, heap1) = alloc (Ndarray3Obj img) heap;
                              (outcome, heap2) =
                                extract_from_arrays_store self_r input_points_r input_r heap1
                          in (outcome, [path], heap2)))
                | ImageNdarrayRef input_r \<Rightarrow>
                    (let (outcome, heap1) =
                           extract_from_arrays_store self_r input_points_r input_r heap
                     in (outcome, [], heap1))
                | ImageNdarrayOtherRankRef \<Rightarrow> (Inl ValueError, [], heap)
                | ImageOtherRef \<Rightarrow>
                    (Inl (Exception ''Please input correct image path or numpy array''), [], heap))
           | _ \<Rightarrow> (Inl (Exception ''Please input correct csv, json path or csv data''), [], heap))
      | _ \<Rightarrow> (Inl AttributeError, [], heap))"

subsection \<open>Reading a store\<close>

text \<open>
  The arguments of the first model that a store holds: the points, the image and the
  attributes of the instance at an address.
\<close>

definition points_arg_of :: "'a pyobj list \<Rightarrow> points_ref \<Rightarrow> points_arg" where
  "points_arg_of heap p =
     (case p of
        PointsNdarrayRef a \<Rightarrow>
          (case lookup heap a of Some (PointsObj rows) \<Rightarrow> PointsNdarray rows | _ \<Rightarrow> PointsOther)
      | PointsNoneRef \<Rightarrow> PointsNone
      | PointsOtherRef \<Rightarrow> PointsOther)"

definition image_arg_of :: "'a pyobj list \<Rightarrow> image_ref \<Rightarrow> 'a image_arg" where
  "image_arg_of heap i =
     (case i of
        ImageStrRef path \<Rightarrow> ImageStr path
      | ImageNdarrayRef a \<Rightarrow>
          (case lookup heap a of Some (Ndarray3Obj img) \<Rightarrow> ImageNdarray img | _ \<Rightarrow> ImageOther)
      | ImageNdarrayOtherRankRef \<Rightarrow> ImageNdarrayOtherRank
      | ImageOtherRef \<Rightarrow> ImageOther)"

definition extractor_of :: "'a pyobj list \<Rightarrow> nat \<Rightarrow> PointsPatchExtractor option" where
  "extractor_of heap self_r =
     (case lookup heap self_r of
        Some (ExtractorObj patch_h patch_w py px points n) \<Rightarrow>
          Some \<lparr>img_patch_h = patch_h, img_patch_w = patch_w, pad_y = py, pad_x = px,
                input_points = points_arg_of heap points, num_examples_per_patch = n\<rparr>
      | _ \<Rightarrow> None)"

text \<open>
  The outcome of a call read from the store: the exception, or the contents of the
  three returned objects.
\<close>

definition result_of ::
  "'a pyobj list \<Rightarrow> error + nat \<times> nat \<times> nat
     \<Rightarrow> (error + 'a list list list list \<times> int option list \<times> int option list) option" where
  "result_of heap outcome =
     (case outcome of
        Inl e \<Rightarrow> Some (Inl e)
      | Inr (img_patches_r, labels_r, cell_id_r) \<Rightarrow>
          (case lookup heap img_patches_r of
             Some (PatchesObj patches) \<Rightarrow>
               (case lookup heap labels_r of
                  Some (ListObj labs) \<Rightarrow>
                    (case lookup heap cell_id_r of
                       Some (ListObj ids) \<Rightarrow> Some (Inr (patches, labs, ids))
                     | _ \<Rightarrow> None)
                | _ \<Rightarrow> None)
           | _ \<Rightarrow> None))"

text \<open>The returned objects are three different objects allocated after \<open>heap\<close>.\<close>

definition fresh_result :: "'o list \<Rightarrow> error + nat \<times> nat \<times> nat \<Rightarrow> bool" where
  "fresh_result heap outcome =
     (case outcome of
        Inl e \<Rightarrow> True
      | Inr (img_patches_r, labels_r, cell_id_r) \<Rightarrow>
          length heap \<le> img_patches_r \<and> length heap \<le> labels_r \<and> length heap \<le> cell_id_r
          \<and> distinct [img_patches_r, labels_r, cell_id_r])"

text \<open>
  A call is well typed in a store when \<open>self\<close> is an instance, its points, if an array,
  are a two-dimensional integer array of the store, and the image, if an array, is a
  three-dimensional array of the store.
\<close>

definition well_typed_points :: "'a pyobj list \<Rightarrow> points_ref \<Rightarrow> bool" where
  "well_typed_points heap p =
     (case p of
        PointsNdarrayRef a \<Rightarrow> (case lookup heap a of Some (PointsObj rows) \<Rightarrow> True | _ \<Rightarrow> False)
      | _ \<Rightarrow> True)"

definition well_typed_image :: "'a pyobj list \<Rightarrow> image_ref \<Rightarrow> bool" where
  "well_typed_image heap i =
     (case i of
        ImageNdarrayRef a \<Rightarrow> (case lookup heap a of Some (Ndarray3Obj img) \<Rightarrow> True | _ \<Rightarrow> False)
      | _ \<Rightarrow> True)"

definition well_typed_call :: "'a pyobj list \<Rightarrow> nat \<Rightarrow> image_ref \<Rightarrow> bool" where
  "well_typed_call heap self_r input_img =
     ((case lookup heap self_r of
         Some (ExtractorObj patch_h patch_w py px p n) \<Rightarrow> well_typed_points heap p
       | _ \<Rightarrow> False)
      \<and> well_typed_image heap input_img)"

subsection \<open>Auxiliary definitions for the proofs on the store\<close>

text \<open>\<open>extends H heap\<close>: every object of \<open>H\<close> is in \<open>heap\<close>, at its address and unchanged.\<close>

definition extends :: "'o list \<Rightarrow> 'o list \<Rightarrow> bool" where
  "extends H heap = (length H \<le> length heap \<and> (\<forall>a < length H. heap ! a = H ! a))"

text \<open>
  The loop state of the first model and a store state agree: the four local objects
  were allocated after \<open>H\<close> and hold the padded image and the three sequences.
\<close>

definition store_rel ::
  "'a pyobj list \<Rightarrow> nat \<Rightarrow> nat \<Rightarrow> nat \<Rightarrow> nat \<Rightarrow> 'a ndarray3 \<Rightarrow> 'a store_state \<Rightarrow> 'a loop_state
     \<Rightarrow> bool" where
  "store_rel H ir pr lr cr padded st s =
     (extends H (objects st)
      \<and> length H \<le> ir \<and> length H \<le> pr \<and> length H \<le> lr \<and> length H \<le> cr
      \<and> distinct [ir, pr, lr, cr]
      \<and> lookup (objects st) ir = Some (Ndarray3Obj padded)
      \<and> lookup (objects st) pr = Some (PatchesObj (img_patches s))
      \<and> lookup (objects st) lr = Some (ListObj (labels s))
      \<and> lookup (objects st) cr = Some (ListObj (cell_id s))
      \<and> cell_total st = cell_tot s \<and> iter_total st = iter_tot s)"

text \<open>
  A step of the first model and a step on the store agree: the same exception, with a
  store that satisfies \<open>F\<close>, or no exception and states related by \<open>I\<close>.
\<close>

definition sim ::
  "('t \<Rightarrow> bool) \<Rightarrow> ('t \<Rightarrow> 's \<Rightarrow> bool) \<Rightarrow> error + 's \<Rightarrow> error option \<times> 't \<Rightarrow> bool" where
  "sim F I r rs =
     (case r of
        Inl e \<Rightarrow> fst rs = Some e \<and> F (snd rs)
      | Inr s' \<Rightarrow> fst rs = None \<and> I (snd rs) s')"

subsection \<open>Example stores\<close>

text \<open>The example extractor, its points and the example image, at two different layouts.\<close>

definition example_heap :: "nat pyobj list" where
  "example_heap =
     [ExtractorObj 2 2 1 1 (PointsNdarrayRef 1) 9,
      PointsObj [[7, 1, 1], [8, 1, 1]],
      Ndarray3Obj example_image]"

definition example_heap' :: "nat pyobj list" where
  "example_heap' =
     [Ndarray3Obj example_image,
      ListObj [],
      ExtractorObj 2 2 1 1 (PointsNdarrayRef 3) 9,
      PointsObj [[7, 1, 1], [8, 1, 1]]]"


section \<open>Results\<close>

subsection \<open>get_last_steps\<close>

lemma pow2_powi: "pow2 k = 2 powi k"
  by (simp add: pow2_def power_int_def field_simps)

lemma powi_less_imp_less:
  assumes "(2::rat) powi m < 2 powi n"
  shows "m < n"
proof (rule ccontr)
  assume "\<not> m < n"
  then have "(2::rat) powi n \<le> 2 powi m"
    by (intro power_int_increasing) simp_all
  with assms show False
    by simp
qed

lemma bitlen_powi:
  assumes "0 < n"
  shows "(2::rat) powi (bitlen n - 1) \<le> of_int n" and "of_int n < (2::rat) powi (bitlen n)"
proof -
  from bitlen_bounds [OF assms]
  have 1: "2 ^ nat (bitlen n - 1) \<le> n" and 2: "n < 2 ^ nat (bitlen n)"
    by simp_all
  from assms have pos: "1 \<le> bitlen n"
    using bitlen_eq_zero_iff [of n] bitlen_nonneg [of n] by linarith
  from 1 have "(of_int (2 ^ nat (bitlen n - 1)) :: rat) \<le> of_int n"
    by (simp only: of_int_le_iff)
  with pos show "(2::rat) powi (bitlen n - 1) \<le> of_int n"
    by (simp add: power_int_def)
  from 2 have "(of_int n :: rat) < of_int (2 ^ nat (bitlen n))"
    by (simp only: of_int_less_iff)
  with pos show "of_int n < (2::rat) powi (bitlen n)"
    by (simp add: power_int_def)
qed

lemma binary_exponent_bounds:
  assumes "0 < x"
  shows "2 powi (binary_exponent x) \<le> x" and "x < 2 powi (binary_exponent x + 1)"
proof -
  obtain n d where nd: "quotient_of x = (n, d)"
    by (cases "quotient_of x")
  then have d: "0 < d" and x: "x = of_int n / of_int d"
    by (simp_all add: quotient_of_denom_pos quotient_of_div)
  from assms x d have n: "0 < n"
    by (simp add: zero_less_divide_iff)
  define k where "k = bitlen n - bitlen d"
  note bn = bitlen_powi [OF n] and bd = bitlen_powi [OF d]
  have dpos: "(0::rat) < of_int d"
    using d by simp
  have "x < 2 powi (bitlen n) / 2 powi (bitlen d - 1)"
    unfolding x using bn(2) bd(1) n
    by (intro frac_less) simp_all
  also have "\<dots> = 2 powi (bitlen n - (bitlen d - 1))"
    by (rule power_int_diff [symmetric]) simp
  also have "bitlen n - (bitlen d - 1) = k + 1"
    by (simp add: k_def)
  finally have up: "x < 2 powi (k + 1)" .
  have "k - 1 = bitlen n - 1 - bitlen d"
    by (simp add: k_def)
  then have "(2::rat) powi (k - 1) = 2 powi (bitlen n - 1 - bitlen d)"
    by (rule arg_cong)
  also have "\<dots> = 2 powi (bitlen n - 1) / 2 powi (bitlen d)"
    by (rule power_int_diff) simp
  also have "\<dots> \<le> x"
    unfolding x using bn(1) bd(2) dpos n
    by (intro frac_le) simp_all
  finally have low: "2 powi (k - 1) \<le> x" .
  have e: "binary_exponent x = (if 2 powi k \<le> x then k else k - 1)"
    by (simp add: binary_exponent_def nd k_def pow2_powi)
  show "2 powi (binary_exponent x) \<le> x"
    using low by (simp add: e)
  show "x < 2 powi (binary_exponent x + 1)"
    using up by (simp add: e)
qed

lemma round_half_even_floor:
  "\<lfloor>x\<rfloor> \<le> round_half_even x" "round_half_even x \<le> \<lfloor>x\<rfloor> + 1"
  by (simp_all add: round_half_even_def Let_def)

lemma round_half_even_ge:
  assumes "of_int M \<le> x"
  shows "M \<le> round_half_even x"
proof -
  from assms have "M \<le> \<lfloor>x\<rfloor>"
    by (simp add: le_floor_iff)
  with round_half_even_floor(1) [of x] show ?thesis
    by simp
qed

lemma round_half_even_le:
  assumes "x \<le> of_int M"
  shows "round_half_even x \<le> M"
proof (cases "x = of_int M")
  case True
  then show ?thesis
    by (simp add: round_half_even_def)
next
  case False
  with assms have "x < of_int M"
    by simp
  then have "\<lfloor>x\<rfloor> < M"
    by (simp add: floor_less_iff)
  with round_half_even_floor(2) [of x] show ?thesis
    by simp
qed

lemma round_half_even_gt:
  assumes "of_int M + 1 / 2 < x"
  shows "M < round_half_even x"
proof (cases "\<lfloor>x\<rfloor> = M")
  case True
  with assms have "1 / 2 < x - of_int \<lfloor>x\<rfloor>"
    by simp
  then have "round_half_even x = \<lfloor>x\<rfloor> + 1"
    by (simp add: round_half_even_def Let_def)
  with True show ?thesis
    by simp
next
  case False
  from assms have "of_int M \<le> x"
    by simp
  then have "M \<le> \<lfloor>x\<rfloor>"
    by (simp add: le_floor_iff)
  with False round_half_even_floor(1) [of x] show ?thesis
    by simp
qed

lemma round_double_ceiling:
  fixes a s :: int
  assumes a: "\<bar>a\<bar> < 2 ^ 53" and s: "0 < s" "s < 2 ^ 53"
  shows "\<exists>y. round_double (of_int a / of_int s) = Finite y \<and> \<lceil>y\<rceil> = \<lceil>(of_int a / of_int s :: rat)\<rceil>"
proof (cases "a = 0")
  case True
  then show ?thesis
    by (simp add: round_double_def)
next
  case False
  define q :: rat where "q = of_int a / of_int s"
  define e where "e = binary_exponent \<bar>q\<bar>"
  define n where "n = nat (52 - e)"
  define k where "k = \<lceil>q\<rceil>"
  have spos: "(0::rat) < of_int s"
    using s by simp
  have absq: "\<bar>q\<bar> = of_int \<bar>a\<bar> / of_int s"
    using s by (simp add: q_def)
  from False s have qne: "q \<noteq> 0" and qpos: "0 < \<bar>q\<bar>"
    by (simp_all add: q_def)
  note eb = binary_exponent_bounds [OF qpos, folded e_def]
  \<comment> \<open>the quotient is below \<open>2 ^ 53\<close> and at least \<open>1 / s\<close>\<close>
  have "of_int \<bar>a\<bar> / of_int s \<le> (of_int \<bar>a\<bar> :: rat)"
    using s by (simp add: divide_le_eq mult_le_cancel_left1)
  also have "\<dots> < 2 ^ 53"
    using a by (simp only: of_int_less_iff [symmetric, where ?'a = rat] of_int_power of_int_numeral)
  finally have qlt: "\<bar>q\<bar> < 2 powi 53"
    by (simp add: absq)
  with eb(1) have "(2::rat) powi e < 2 powi 53"
    by simp
  then have e_up: "e < 53"
    by (rule powi_less_imp_less)
  have "1 \<le> \<bar>a\<bar>"
    using False by simp
  then have "(1::rat) \<le> of_int \<bar>a\<bar>"
    by (simp only: of_int_le_iff [symmetric, where ?'a = rat] of_int_1)
  then have qge: "1 / of_int s \<le> \<bar>q\<bar>"
    using spos by (simp add: absq divide_le_cancel)
  have "(of_int s :: rat) < 2 ^ 53"
    using s(2) by (simp only: of_int_less_iff [symmetric, where ?'a = rat] of_int_power of_int_numeral)
  then have "1 / (2 ^ 53 :: rat) < 1 / of_int s"
    using spos by (simp add: frac_less2)
  with qge eb(2) have "1 / (2 ^ 53 :: rat) < 2 powi (e + 1)"
    by simp
  moreover have "(2::rat) powi (- 53) = 1 / 2 ^ 53"
    by (simp add: power_int_minus inverse_eq_divide)
  ultimately have "(2::rat) powi (- 53) < 2 powi (e + 1)"
    by (simp only:)
  then have "- 53 < e + 1"
    by (rule powi_less_imp_less)
  then have e_low: "- 54 < e"
    by simp
  \<comment> \<open>the stride is below \<open>2 ^ (53 - e)\<close>\<close>
  have "(2::rat) powi e * of_int s \<le> of_int \<bar>a\<bar>"
    using eb(1) spos by (simp add: absq pos_le_divide_eq)
  also have "(of_int \<bar>a\<bar> :: rat) < 2 powi 53"
    using a by (simp only: of_int_less_iff [symmetric, where ?'a = rat], simp)
  finally have "(of_int s :: rat) < 2 powi 53 / 2 powi e"
    by (simp add: pos_less_divide_eq mult.commute)
  also have "\<dots> = 2 powi (int n + 1)"
    using e_up by (simp add: n_def power_int_diff)
  finally have s_lt: "(of_int s :: rat) < 2 * 2 ^ n"
    by (simp add: power_int_add)
  \<comment> \<open>the quantum\<close>
  have g: "max (e - 52) (- 1074) = - int n"
    using e_up e_low by (simp add: n_def)
  have p2: "pow2 (- int n) = 1 / 2 ^ n"
    by (simp add: pow2_def)
  define m where "m = round_half_even (q * 2 ^ n)"
  define y :: rat where "y = of_int m / 2 ^ n"
  \<comment> \<open>the rounded value lies in the same unit interval\<close>
  have kq: "of_int k - 1 < q" "q \<le> of_int k"
    unfolding k_def by linarith+
  have "q * 2 ^ n \<le> of_int (k * 2 ^ n)"
    using kq(2) by simp
  then have m_up: "m \<le> k * 2 ^ n"
    unfolding m_def by (rule round_half_even_le)
  have "0 < a - (k - 1) * s"
  proof -
    from kq(1) spos have "(of_int k - 1) * of_int s < (of_int a :: rat)"
      by (simp add: q_def pos_less_divide_eq)
    then have "(of_int ((k - 1) * s) :: rat) < of_int a"
      by simp
    then have "(k - 1) * s < a"
      by (simp only: of_int_less_iff)
    then show ?thesis
      by simp
  qed
  then have "1 \<le> a - (k - 1) * s"
    by simp
  then have "(1::rat) \<le> of_int (a - (k - 1) * s)"
    by (simp only: of_int_le_iff [symmetric, where ?'a = rat] of_int_1)
  then have "1 / of_int s \<le> (of_int (a - (k - 1) * s) :: rat) / of_int s"
    using spos by (simp add: divide_le_cancel)
  also have "\<dots> = q - (of_int k - 1)"
    using spos by (simp add: q_def field_simps)
  finally have gap: "1 / of_int s \<le> q - (of_int k - 1)" .
  have "1 / 2 < 2 ^ n * (1 / (of_int s :: rat))"
    using s_lt spos by (simp add: pos_less_divide_eq)
  also have "\<dots> \<le> 2 ^ n * (q - (of_int k - 1))"
    using gap by (intro mult_left_mono) simp_all
  finally have "of_int ((k - 1) * 2 ^ n) + 1 / 2 < q * 2 ^ n"
    by (simp add: algebra_simps)
  then have m_low: "(k - 1) * 2 ^ n < m"
    unfolding m_def by (rule round_half_even_gt)
  have pw: "(0::rat) < 2 ^ n"
    by simp
  from m_up have "(of_int m :: rat) \<le> of_int (k * 2 ^ n)"
    by (simp only: of_int_le_iff)
  then have y_up: "y \<le> of_int k"
    using pw by (simp add: y_def pos_divide_le_eq)
  from m_low have "(of_int ((k - 1) * 2 ^ n) :: rat) < of_int m"
    by (simp only: of_int_less_iff)
  then have y_low: "of_int k - 1 < y"
    using pw by (simp add: y_def pos_less_divide_eq)
  from y_low y_up have ceil: "\<lceil>y\<rceil> = k"
    by (simp add: ceiling_eq_iff)
  \<comment> \<open>no overflow\<close>
  have "\<bar>q\<bar> < 2 ^ 53"
    using qlt by simp
  then have "- (2 ^ 53) < q" "q < 2 ^ 53"
    by (simp_all add: abs_less_iff)
  with kq have "of_int k < (2 ^ 53 + 1 :: rat)" "(- (2 ^ 53) :: rat) < of_int k"
    by linarith+
  with y_low y_up have y_bounds: "y < 2 ^ 53 + 1" "- (2 ^ 53) - 1 < y"
    by linarith+
  have big: "(2 ^ 53 + 1 :: rat) < 2 ^ 1024"
    by simp
  from y_bounds big have no_over: "\<not> 2 ^ 1024 \<le> y" "\<not> y \<le> - (2 ^ 1024)"
    by linarith+
  have "round_double q = Finite y"
    using qne no_over
    by (simp add: round_double_def Let_def e_def [symmetric] g p2 m_def [symmetric] y_def)
  with ceil show ?thesis
    by (simp add: q_def k_def)
qed


lemma py_int_of_int: "py_int (real_of_int k) = k"
  by (simp add: py_int_def)

lemma last_step_spec_eq:
  "last_step_spec a b s = (\<lceil>real_of_int (a - b) / real_of_int s\<rceil> + 1) * s"
proof -
  have "(real_of_int \<lceil>real_of_int (a - b) / real_of_int s\<rceil> + 1) * real_of_int s
      = real_of_int ((\<lceil>real_of_int (a - b) / real_of_int s\<rceil> + 1) * s)"
    by simp
  then show ?thesis
    unfolding last_step_spec_def by (simp only: py_int_of_int)
qed

lemma ceiling_rat_real:
  "\<lceil>(of_int a / of_int s :: rat)\<rceil> = \<lceil>real_of_int a / real_of_int s\<rceil>"
proof -
  have "\<lfloor>(of_int (- a) / of_int s :: rat)\<rfloor> = \<lfloor>real_of_int (- a) / real_of_int s\<rfloor>"
    by (simp only: floor_divide_of_int_eq)
  then show ?thesis
    by (simp add: ceiling_def)
qed

lemma get_last_steps_int:
  assumes "0 < stride" "stride < 2 ^ 53" "\<bar>image_dim - patch_dim\<bar> < 2 ^ 53"
  shows "get_last_steps (PyInt image_dim) (PyInt patch_dim) (PyInt stride)
       = Inr (last_step_spec image_dim patch_dim stride)"
proof -
  from round_double_ceiling [OF assms(3) assms(1) assms(2)]
  obtain y where y: "round_double (of_int (image_dim - patch_dim) / of_int stride) = Finite y"
    and c: "\<lceil>y\<rceil> = \<lceil>(of_int (image_dim - patch_dim) / of_int stride :: rat)\<rceil>"
    by (elim exE conjE)
  from assms(1) have ne: "stride \<noteq> 0"
    by simp
  have "get_last_steps (PyInt image_dim) (PyInt patch_dim) (PyInt stride)
      = Inr ((\<lceil>y\<rceil> + 1) * stride)"
    using ne by (simp add: get_last_steps_def y del: of_int_diff)
  then show ?thesis
    by (simp only: c ceiling_rat_real last_step_spec_eq)
qed

lemma binary_exponent_unique:
  assumes "0 < x" "2 powi e \<le> x" "x < 2 powi (e + 1)"
  shows "binary_exponent x = e"
proof -
  note b = binary_exponent_bounds [OF assms(1)]
  from b(1) assms(3) have "(2::rat) powi (binary_exponent x) < 2 powi (e + 1)"
    by simp
  then have 1: "binary_exponent x < e + 1"
    by (rule powi_less_imp_less)
  from assms(2) b(2) have "(2::rat) powi e < 2 powi (binary_exponent x + 1)"
    by simp
  then have 2: "e < binary_exponent x + 1"
    by (rule powi_less_imp_less)
  from 1 2 show ?thesis
    by simp
qed

lemma round_half_even_of_int: "round_half_even (of_int k) = k"
  by (simp add: round_half_even_def)

lemma round_half_even_half:
  "round_half_even (of_int k + 1 / 2) = (if even k then k else k + 1)"
proof -
  have "\<lfloor>(of_int k + 1 / 2 :: rat)\<rfloor> = k"
    by (rule floor_unique) simp_all
  then show ?thesis
    by (simp add: round_half_even_def)
qed

lemma round_double_eval:
  assumes "x \<noteq> 0" "2 powi e \<le> \<bar>x\<bar>" "\<bar>x\<bar> < 2 powi (e + 1)"
    and "max (e - 52) (- 1074) = g" "x / pow2 g = z" "round_half_even z = m"
    and "of_int m * pow2 g = y" "\<not> 2 ^ 1024 \<le> y" "\<not> y \<le> - (2 ^ 1024)"
  shows "round_double x = Finite y"
proof -
  from assms(1) have "0 < \<bar>x\<bar>"
    by simp
  then have "binary_exponent \<bar>x\<bar> = e"
    using assms(2,3) by (rule binary_exponent_unique)
  then show ?thesis
    using assms(1,8,9) by (simp add: round_double_def Let_def assms(4,5,6,7))
qed

lemma round_double_of_int:
  assumes "\<bar>k\<bar> < 2 ^ 53"
  shows "round_double (of_int k) = Finite (of_int k)"
proof (cases "k = 0")
  case True
  then show ?thesis
    by (simp add: round_double_def)
next
  case False
  define x :: rat where "x = of_int k"
  define e where "e = binary_exponent \<bar>x\<bar>"
  define n where "n = nat (52 - e)"
  from False have xne: "x \<noteq> 0" and xpos: "0 < \<bar>x\<bar>"
    by (simp_all add: x_def)
  note eb = binary_exponent_bounds [OF xpos, folded e_def]
  have ax: "\<bar>x\<bar> = of_int \<bar>k\<bar>"
    by (simp add: x_def)
  have "(of_int \<bar>k\<bar> :: rat) < 2 powi 53"
    using assms by (simp only: of_int_less_iff [symmetric, where ?'a = rat], simp)
  with eb(1) have "(2::rat) powi e < 2 powi 53"
    by (simp add: ax)
  then have e_up: "e < 53"
    by (rule powi_less_imp_less)
  have "1 \<le> \<bar>k\<bar>"
    using False by simp
  then have "(1::rat) \<le> of_int \<bar>k\<bar>"
    by (simp only: of_int_le_iff [symmetric, where ?'a = rat] of_int_1)
  with eb(2) have "(2::rat) powi 0 < 2 powi (e + 1)"
    by (simp add: ax)
  then have "0 < e + 1"
    by (rule powi_less_imp_less)
  with e_up have g: "max (e - 52) (- 1074) = - int n"
    by (simp add: n_def)
  have p2: "pow2 (- int n) = 1 / 2 ^ n"
    by (simp add: pow2_def)
  have small: "\<bar>x\<bar> < 2 ^ 1024"
  proof -
    have "\<bar>x\<bar> < 2 ^ 53"
      using assms unfolding ax by (simp only: of_int_less_iff [symmetric, where ?'a = rat], simp)
    also have "(2 ^ 53 :: rat) < 2 ^ 1024"
      by simp
    finally show ?thesis .
  qed
  have "round_double x = Finite x"
  proof (rule round_double_eval [OF xne eb g])
    show "x / pow2 (- int n) = of_int (k * 2 ^ n)"
      by (simp add: p2 x_def)
    show "round_half_even (of_int (k * 2 ^ n)) = k * 2 ^ n"
      by (rule round_half_even_of_int)
    show "of_int (k * 2 ^ n) * pow2 (- int n) = x"
      by (simp add: p2 x_def)
    show "\<not> 2 ^ 1024 \<le> x" "\<not> x \<le> - (2 ^ 1024)"
      using small by (simp_all add: abs_less_iff)
  qed
  then show ?thesis
    by (simp only: x_def)
qed

lemma round_double_tie: "round_double (2 ^ 53 + 1) = Finite (2 ^ 53)"
proof (rule round_double_eval [where e = 53 and g = 1 and z = "of_int (2 ^ 52) + 1 / 2"
      and m = "2 ^ 52"])
  show "round_half_even (of_int (2 ^ 52) + 1 / 2) = 2 ^ 52"
    by (simp only: round_half_even_half) simp
qed (simp_all add: pow2_def)

lemma round_double_overflow: "round_double (2 ^ 1024) = PosInf"
proof -
  have "binary_exponent \<bar>2 ^ 1024\<bar> = 1024"
    by (rule binary_exponent_unique) simp_all
  then show ?thesis
    by (simp add: round_double_def Let_def pow2_def round_half_even_def)
qed

text \<open>
  C2, for integers a double can hold: for integers \<open>image_dim\<close>, \<open>patch_dim\<close> and
  \<open>stride\<close> with \<open>0 < stride < 2 ^ 53\<close> and \<open>\<bar>image_dim - patch_dim\<bar> < 2 ^ 53\<close>,
  \<open>get_last_steps\<close> returns, without raising, the integer truncation of
  \<open>(ceil((image_dim - patch_dim) / stride) + 1) * stride\<close>; it returns 8 for
  \<open>(10, 4, 2)\<close>, and a negative number is a possible result when the patch is longer
  than the image (\<open>-4\<close> for \<open>(4, 10, 2)\<close>).
\<close>

theorem get_last_steps_contract:
  assumes "0 < stride" "stride < 2 ^ 53" "\<bar>image_dim - patch_dim\<bar> < 2 ^ 53"
  shows "get_last_steps (PyInt image_dim) (PyInt patch_dim) (PyInt stride)
           = Inr (last_step_spec image_dim patch_dim stride)
       \<and> get_last_steps (PyInt 10) (PyInt 4) (PyInt 2) = Inr 8
       \<and> get_last_steps (PyInt 4) (PyInt 10) (PyInt 2) = Inr (- 4)"
proof -
  have "get_last_steps (PyInt 10) (PyInt 4) (PyInt 2) = Inr (last_step_spec 10 4 2)"
    by (rule get_last_steps_int) simp_all
  moreover have "last_step_spec 10 4 2 = 8"
    by (simp add: last_step_spec_eq)
  moreover have "get_last_steps (PyInt 4) (PyInt 10) (PyInt 2) = Inr (last_step_spec 4 10 2)"
    by (rule get_last_steps_int) simp_all
  moreover have "last_step_spec 4 10 2 = - 4"
    by (simp add: last_step_spec_eq)
  ultimately show ?thesis
    using get_last_steps_int [OF assms] by simp
qed

theorem get_last_steps_contract_witness:
  "(0::int) < 3 \<and> (3::int) < 2 ^ 53 \<and> \<bar>11 - 4 :: int\<bar> < 2 ^ 53
   \<and> get_last_steps (PyInt 11) (PyInt 4) (PyInt 3) = Inr 12"
proof -
  have h: "(0::int) < 3" "(3::int) < 2 ^ 53" "\<bar>11 - 4 :: int\<bar> < 2 ^ 53"
    by simp_all
  have "last_step_spec 11 4 3 = 12"
    by (simp add: last_step_spec_eq)
  with h get_last_steps_contract [OF h] show ?thesis
    by simp
qed


text \<open>
  Outside these bounds the claim fails. The quotient \<open>(2 ^ 53 + 1) / 1\<close> is not a
  double and rounds to \<open>2 ^ 53\<close>, so the result is \<open>2 ^ 53 + 1\<close> where the formula gives
  \<open>2 ^ 53 + 2\<close>. The call raises OverflowError on an integer too large for a double and
  on an infinite stride, and ValueError on a nan.
\<close>

theorem get_last_steps_counterexample:
  "get_last_steps (PyInt (2 ^ 53 + 1)) (PyInt 0) (PyInt 1) = Inr (2 ^ 53 + 1)
   \<and> last_step_spec (2 ^ 53 + 1) 0 1 = 2 ^ 53 + 2
   \<and> get_last_steps (PyInt (2 ^ 1024)) (PyInt 0) (PyInt 1) = Inl OverflowError
   \<and> get_last_steps (PyInt 10) (PyInt 4) (PyFloat PosInf) = Inl OverflowError
   \<and> get_last_steps (PyFloat NaN) (PyInt 4) (PyInt 2) = Inl ValueError"
proof -
  note exact = round_double_of_int [of 1, simplified] round_double_of_int [of 2, simplified]
    round_double_of_int [of 4, simplified] round_double_of_int [of 6, simplified]
  have 1: "get_last_steps (PyInt (2 ^ 53 + 1)) (PyInt 0) (PyInt 1) = Inr (2 ^ 53 + 1)"
    by (simp add: get_last_steps_def round_double_tie [simplified])
  have 2: "last_step_spec (2 ^ 53 + 1) 0 1 = 2 ^ 53 + 2"
    by (simp add: last_step_spec_eq)
  have 3: "get_last_steps (PyInt (2 ^ 1024)) (PyInt 0) (PyInt 1) = Inl OverflowError"
    by (simp add: get_last_steps_def round_double_overflow [simplified])
  have 4: "get_last_steps (PyInt 10) (PyInt 4) (PyFloat PosInf) = Inl OverflowError"
    by (simp add: get_last_steps_def float_of_int_def exact)
  have 5: "get_last_steps (PyFloat NaN) (PyInt 4) (PyInt 2) = Inl ValueError"
    by (simp add: get_last_steps_def float_of_int_def exact)
  from 1 2 3 4 5 show ?thesis
    by (intro conjI)
qed

subsection \<open>The factory\<close>

lemma lower_char_idem: "lower_char (lower_char c) = lower_char c"
  by (simp add: lower_char_def)

lemma lower_idem: "lower (lower s) = lower s"
  by (simp add: lower_def lower_char_idem)

lemma stub_init_fails:
  "isl (FixedWindowPatchExtractor_init h w sh sw)"
  "isl (VariableWindowPatchExtractor_init h w sh sw lh lw)"
  by (simp_all add: FixedWindowPatchExtractor_init_def VariableWindowPatchExtractor_init_def
      split: sum.splits)

text \<open>
  The super call of the three constructors resolves to \<^verbatim>\<open>object.__init__\<close>, which
  rejects the keyword arguments.
\<close>

lemma super_lookup_object:
  "super_lookup PatchExtractor_class FixedWindowPatchExtractor_class = Some object_class"
  "super_lookup PatchExtractor_class VariableWindowPatchExtractor_class = Some object_class"
  "super_lookup PatchExtractor_class PointsPatchExtractor_class = Some object_class"
  by (simp_all add: super_lookup_def)

lemma PointsPatchExtractor_init_raises:
  "PointsPatchExtractor_init h w py px pts n = Inl TypeError"
  by (simp add: PointsPatchExtractor_init_def super_PatchExtractor_init_def super_lookup_object
      object_init_def)

text \<open>
  C7, as the code has it: \<open>get_patch_extractor\<close> compares the lower-cased name, so the
  result depends on the name up to case only; for \<open>fixedwindow\<close> and \<open>variablewindow\<close>
  it calls the stub constructor, which raises, so that no instance is returned; for a
  name that is none of \<open>point\<close>, \<open>fixedwindow\<close>, \<open>variablewindow\<close> it raises
  \<open>MethodNotSupported\<close>.
\<close>

theorem get_patch_extractor_dispatch:
  "get_patch_extractor name h w pts py px = get_patch_extractor (lower name) h w pts py px
   \<and> (lower name = ''fixedwindow'' \<or> lower name = ''variablewindow''
        \<longrightarrow> isl (get_patch_extractor name h w pts py px))
   \<and> (lower name \<noteq> ''point'' \<and> lower name \<noteq> ''fixedwindow'' \<and> lower name \<noteq> ''variablewindow''
        \<longrightarrow> get_patch_extractor name h w pts py px = Inl (MethodNotSupported None))"
proof (intro conjI impI)
  show "get_patch_extractor name h w pts py px = get_patch_extractor (lower name) h w pts py px"
    by (simp only: get_patch_extractor_def lower_idem)
next
  assume "lower name = ''fixedwindow'' \<or> lower name = ''variablewindow''"
  then show "isl (get_patch_extractor name h w pts py px)"
    by (auto simp: get_patch_extractor_def stub_init_fails)
next
  assume "lower name \<noteq> ''point'' \<and> lower name \<noteq> ''fixedwindow'' \<and> lower name \<noteq> ''variablewindow''"
  then show "get_patch_extractor name h w pts py px = Inl (MethodNotSupported None)"
    by (simp add: get_patch_extractor_def)
qed

theorem get_patch_extractor_dispatch_witness:
  "lower ''VariableWindow'' = ''variablewindow''
   \<and> isl (get_patch_extractor ''VariableWindow'' 224 224 PointsNone 0 0)
   \<and> lower ''unknown'' = ''unknown''
   \<and> get_patch_extractor ''unknown'' 224 224 PointsNone 0 0 = Inl (MethodNotSupported None)"
proof -
  have a: "lower ''VariableWindow'' = ''variablewindow''"
    by (simp add: lower_def lower_char_def)
  have b: "lower ''unknown'' = ''unknown''"
    by (simp add: lower_def lower_char_def)
  from a get_patch_extractor_dispatch [of "''VariableWindow''" 224 224 PointsNone 0 0]
  have "isl (get_patch_extractor ''VariableWindow'' 224 224 PointsNone 0 0)"
    by blast
  moreover from b get_patch_extractor_dispatch [of "''unknown''" 224 224 PointsNone 0 0]
  have "get_patch_extractor ''unknown'' 224 224 PointsNone 0 0 = Inl (MethodNotSupported None)"
    by auto
  ultimately show ?thesis using a b by simp
qed

text \<open>
  C7 as stated fails: with every optional argument left out, neither \<open>fixedwindow\<close>
  nor \<open>point\<close> returns an instance; both calls raise TypeError.
\<close>

theorem get_patch_extractor_returns_counterexample:
  "get_patch_extractor_default ''fixedwindow'' = Inl TypeError
   \<and> get_patch_extractor_default ''point'' = Inl TypeError"
  by (simp add: get_patch_extractor_default_def get_patch_extractor_def lower_def lower_char_def
      PointsPatchExtractor_init_raises FixedWindowPatchExtractor_init_def
      super_PatchExtractor_init_def super_lookup_object object_init_def)

subsection \<open>merge_patches\<close>

text \<open>
  C8: for every extractor and every argument (\<open>None\<close> too), \<open>merge_patches\<close> raises
  \<open>MethodNotSupported\<close> and returns no merged image.
\<close>

theorem merge_patches_unsupported:
  "merge_patches self patches
     = Inl (MethodNotSupported (Some ''Merge patches not supported for PointsPatchExtractor''))
   \<and> (\<forall>merged. merge_patches self patches \<noteq> Inr merged)"
  by (simp add: merge_patches_def)

subsection \<open>The errors of extract_patches\<close>

lemma for_each_error:
  assumes "for_each xs body s = Inl e"
    and "\<And>x s e. x \<in> set xs \<Longrightarrow> body x s = Inl e \<Longrightarrow> Q e"
  shows "Q e"
  using assms
proof (induction xs arbitrary: s)
  case Nil
  then show ?case by simp
next
  case (Cons x xs)
  show ?case
  proof (cases "body x s")
    case (Inl e')
    with Cons.prems(1) have "e' = e" by simp
    with Inl Cons.prems(2) [of x s e] show ?thesis by simp
  next
    case (Inr s')
    with Cons.prems(1) have "for_each xs body s' = Inl e" by simp
    then show ?thesis
      using Cons.prems(2) by (intro Cons.IH [of s']) auto
  qed
qed

lemma extract_one_error:
  "extract_one ph pw img ct loc h w s = Inl e \<Longrightarrow> \<not> is_InvalidInput e"
  by (auto simp: extract_one_def Let_def broadcast_to_def is_InvalidInput_def
      split: if_splits sum.splits)

lemma extract_row_error:
  assumes "extract_row ph pw py px n img row s = Inl e"
  shows "\<not> is_InvalidInput e"
proof (cases "length row \<le> 2")
  case True
  with assms show ?thesis by (simp add: extract_row_def is_InvalidInput_def)
next
  case False
  let ?r = "py_range (fst (sample_range n)) (snd (sample_range n))"
  let ?loc = "(row ! 2 + py - 1, row ! 1 + px - 1)"
  from assms False
  have "for_each ?r (\<lambda>h. for_each ?r (\<lambda>w. extract_one ph pw img (row ! 0) ?loc h w)) s = Inl e"
    by (simp add: extract_row_def Let_def split: sum.splits)
  then show ?thesis
  proof (rule for_each_error)
    fix h s' e'
    assume "for_each ?r (\<lambda>w. extract_one ph pw img (row ! 0) ?loc h w) s' = Inl e'"
    then show "\<not> is_InvalidInput e'"
      by (rule for_each_error) (rule extract_one_error)
  qed
qed

lemma extract_from_arrays_error:
  assumes "extract_from_arrays self points img = Inl e"
  shows "\<not> is_InvalidInput e"
proof (cases "np_pad_symmetric img (pad_y self) (pad_x self)")
  case (Inl e')
  with assms have "e = e'" by (simp add: extract_from_arrays_def)
  moreover from Inl have "e' = ValueError"
    by (simp add: np_pad_symmetric_def split: if_splits)
  ultimately show ?thesis by (simp add: is_InvalidInput_def)
next
  case (Inr padded)
  show ?thesis
  proof (cases "int (length points) * num_examples_per_patch self < 0
                \<or> img_patch_h self < 0 \<or> img_patch_w self < 0")
    case True
    with assms Inr have "e = ValueError" by (simp add: extract_from_arrays_def Let_def)
    then show ?thesis by (simp add: is_InvalidInput_def)
  next
    case False
    with assms Inr obtain s0 where
      "for_each points (extract_row (img_patch_h self) (img_patch_w self) (pad_y self) (pad_x self)
          (num_examples_per_patch self) padded) s0 = Inl e"
      by (auto simp: extract_from_arrays_def Let_def split: sum.splits)
    then show ?thesis
      by (rule for_each_error) (rule extract_row_error)
  qed
qed

lemma imread_error: "imread disk path = Inl e \<Longrightarrow> \<not> is_InvalidInput e"
  by (auto simp: imread_def is_InvalidInput_def split: option.splits)

lemma extract_patches_bad_points:
  "\<not> is_ndarray_points (input_points self) \<Longrightarrow>
   extract_patches disk self input_img
     = (Inl (Exception ''Please input correct csv, json path or csv data''), [])"
  by (simp add: extract_patches_def is_ndarray_points_def split: points_arg.splits)

lemma extract_patches_bad_image:
  "is_ndarray_points (input_points self) \<Longrightarrow> \<not> is_str_or_ndarray input_img \<Longrightarrow>
   extract_patches disk self input_img
     = (Inl (Exception ''Please input correct image path or numpy array''), [])"
  by (simp add: extract_patches_def is_ndarray_points_def is_str_or_ndarray_def
      split: points_arg.splits image_arg.splits)

lemma extract_patches_good_arguments:
  assumes "is_ndarray_points (input_points self)" and "is_str_or_ndarray input_img"
  shows "\<not> raises_InvalidInput (fst (extract_patches disk self input_img))"
proof -
  from assms(1) obtain points where pts: "input_points self = PointsNdarray points"
    by (auto simp: is_ndarray_points_def split: points_arg.splits)
  show ?thesis
  proof (cases input_img)
    case (ImageStr path)
    with pts show ?thesis
      by (auto simp: extract_patches_def raises_InvalidInput_def
          dest: imread_error extract_from_arrays_error split: sum.splits)
  next
    case (ImageNdarray img)
    with pts show ?thesis
      by (auto simp: extract_patches_def raises_InvalidInput_def
          dest: extract_from_arrays_error split: sum.splits)
  next
    case ImageNdarrayOtherRank
    with pts show ?thesis
      by (simp add: extract_patches_def raises_InvalidInput_def is_InvalidInput_def)
  next
    case ImageOther
    with assms(2) show ?thesis by (simp add: is_str_or_ndarray_def)
  qed
qed

text \<open>
  C6: \<open>extract_patches\<close> raises InvalidInput exactly when the image argument is
  neither an array nor a \<open>str\<close>, or the stored points are not an \<open>ndarray\<close>; when it
  does, the outcome is the exception alone (no patches) and nothing has been read
  from disk.
\<close>

theorem extract_patches_InvalidInput_iff:
  "(raises_InvalidInput (fst (extract_patches disk self input_img))
      \<longleftrightarrow> \<not> is_str_or_ndarray input_img \<or> \<not> is_ndarray_points (input_points self))
   \<and> (raises_InvalidInput (fst (extract_patches disk self input_img))
      \<longrightarrow> (\<forall>res. fst (extract_patches disk self input_img) \<noteq> Inr res)
          \<and> snd (extract_patches disk self input_img) = [])"
proof -
  have iff: "raises_InvalidInput (fst (extract_patches disk self input_img))
      \<longleftrightarrow> \<not> is_str_or_ndarray input_img \<or> \<not> is_ndarray_points (input_points self)"
  proof (cases "is_ndarray_points (input_points self)")
    case False
    then show ?thesis
      by (simp add: extract_patches_bad_points raises_InvalidInput_def is_InvalidInput_def)
  next
    case pts: True
    show ?thesis
    proof (cases "is_str_or_ndarray input_img")
      case False
      with pts show ?thesis
        by (simp add: extract_patches_bad_image raises_InvalidInput_def is_InvalidInput_def)
    next
      case True
      with pts extract_patches_good_arguments [of self input_img disk] show ?thesis
        by simp
    qed
  qed
  have "snd (extract_patches disk self input_img) = []"
    if "raises_InvalidInput (fst (extract_patches disk self input_img))"
  proof (cases "is_ndarray_points (input_points self)")
    case False
    then show ?thesis by (simp add: extract_patches_bad_points)
  next
    case True
    with that iff have "\<not> is_str_or_ndarray input_img" by simp
    with True show ?thesis by (simp add: extract_patches_bad_image)
  qed
  moreover have "\<forall>res. fst (extract_patches disk self input_img) \<noteq> Inr res"
    if "raises_InvalidInput (fst (extract_patches disk self input_img))"
    using that by (auto simp: raises_InvalidInput_def)
  ultimately show ?thesis using iff by blast
qed

theorem extract_patches_InvalidInput_iff_witness:
  "raises_InvalidInput
     (fst (extract_patches (\<lambda>p. None)
        \<lparr>img_patch_h = 3, img_patch_w = 3, pad_y = 1, pad_x = 1,
         input_points = PointsNdarray [[7, 2, 2]], num_examples_per_patch = 1\<rparr>
        (ImageOther :: nat image_arg)))
   \<and> snd (extract_patches (\<lambda>p. None)
        \<lparr>img_patch_h = 3, img_patch_w = 3, pad_y = 1, pad_x = 1,
         input_points = PointsNdarray [[7, 2, 2]], num_examples_per_patch = 1\<rparr>
        (ImageOther :: nat image_arg)) = []
   \<and> \<not> raises_InvalidInput
     (fst (extract_patches (\<lambda>p. None)
        \<lparr>img_patch_h = 3, img_patch_w = 3, pad_y = 1, pad_x = 1,
         input_points = PointsNdarray [[7, 2, 2]], num_examples_per_patch = 1\<rparr>
        (ImageStr ''slide.png'' :: nat image_arg)))"
  using
    extract_patches_InvalidInput_iff [of "\<lambda>p. None"
      "\<lparr>img_patch_h = 3, img_patch_w = 3, pad_y = 1, pad_x = 1,
        input_points = PointsNdarray [[7, 2, 2]], num_examples_per_patch = 1\<rparr>"
      "ImageOther :: nat image_arg"]
    extract_patches_InvalidInput_iff [of "\<lambda>p. None"
      "\<lparr>img_patch_h = 3, img_patch_w = 3, pad_y = 1, pad_x = 1,
        input_points = PointsNdarray [[7, 2, 2]], num_examples_per_patch = 1\<rparr>"
      "ImageStr ''slide.png'' :: nat image_arg"]
  by (simp add: is_str_or_ndarray_def is_ndarray_points_def)

text \<open>
  C10: the points are checked first. When the stored points are not an \<open>ndarray\<close>,
  \<open>extract_patches\<close> raises the exception about the points whatever the image
  argument is, and no path has been handed to the image loader.
\<close>

theorem points_checked_before_image:
  assumes "\<not> is_ndarray_points (input_points self)"
  shows "fst (extract_patches disk self input_img)
           = Inl (Exception ''Please input correct csv, json path or csv data'')
       \<and> snd (extract_patches disk self input_img) = []"
  using assms by (simp add: extract_patches_bad_points)

theorem points_checked_before_image_witness:
  "\<not> is_ndarray_points PointsNone
   \<and> extract_patches (\<lambda>p. Some (Ndarray3 1 1 1 [[[5::nat]]]))
       \<lparr>img_patch_h = 1, img_patch_w = 1, pad_y = 0, pad_x = 0,
        input_points = PointsNone, num_examples_per_patch = 1\<rparr>
       (ImageStr ''slide.png'')
     = (Inl (Exception ''Please input correct csv, json path or csv data''), [])
   \<and> snd (extract_patches (\<lambda>p. Some (Ndarray3 1 1 1 [[[5::nat]]]))
       \<lparr>img_patch_h = 1, img_patch_w = 1, pad_y = 0, pad_x = 0,
        input_points = PointsNdarray [[7, 1, 1]], num_examples_per_patch = 1\<rparr>
       (ImageStr ''slide.png'')) = [''slide.png'']"
proof -
  have a: "\<not> is_ndarray_points PointsNone"
    by (simp add: is_ndarray_points_def)
  have b: "snd (extract_patches (\<lambda>p. Some (Ndarray3 1 1 1 [[[5::nat]]]))
       \<lparr>img_patch_h = 1, img_patch_w = 1, pad_y = 0, pad_x = 0,
        input_points = PointsNdarray [[7, 1, 1]], num_examples_per_patch = 1\<rparr>
       (ImageStr ''slide.png'')) = [''slide.png'']"
    by (simp add: extract_patches_def imread_def)
  from a b
    points_checked_before_image [of
      "\<lparr>img_patch_h = 1, img_patch_w = 1, pad_y = 0, pad_x = 0,
        input_points = PointsNone, num_examples_per_patch = 1\<rparr>"
      "\<lambda>p. Some (Ndarray3 1 1 1 [[[5::nat]]])" "ImageStr ''slide.png''"]
  show ?thesis
    by (simp add: prod_eq_iff)
qed

subsection \<open>The sampling offsets\<close>

lemma floor_sqrt_bounds:
  "floor_sqrt n * floor_sqrt n \<le> n \<and> n < (floor_sqrt n + 1) * (floor_sqrt n + 1)"
proof (induction n)
  case 0
  then show ?case by simp
next
  case (Suc n)
  then show ?case
    by (auto simp: Let_def)
qed

lemma floor_sqrt_unique:
  assumes "r * r \<le> n" and "n < (r + 1) * (r + 1)"
  shows "floor_sqrt n = r"
proof (rule ccontr)
  let ?q = "floor_sqrt n"
  assume "?q \<noteq> r"
  then consider "?q + 1 \<le> r" | "r + 1 \<le> ?q" by linarith
  then show False
  proof cases
    case 1
    from 1 1 have "(?q + 1) * (?q + 1) \<le> r * r" by (rule mult_le_mono)
    with assms(1) floor_sqrt_bounds [of n] show False by linarith
  next
    case 2
    from 2 2 have "(r + 1) * (r + 1) \<le> ?q * ?q" by (rule mult_le_mono)
    with assms(2) floor_sqrt_bounds [of n] show False by linarith
  qed
qed

lemma floor_sqrt_square: "floor_sqrt (r * r) = r"
  by (rule floor_sqrt_unique) simp_all

text \<open>\<open>floor_sqrt\<close> is the floor of the real square root.\<close>

lemma floor_sqrt_real: "\<lfloor>sqrt (real n)\<rfloor> = int (floor_sqrt n)"
proof -
  let ?r = "floor_sqrt n"
  have "real (?r * ?r) \<le> real n" and "real n < real ((?r + 1) * (?r + 1))"
    using floor_sqrt_bounds [of n] by (simp_all only: of_nat_le_iff of_nat_less_iff)
  moreover have "real (?r * ?r) = (real ?r)\<^sup>2"
    and "real ((?r + 1) * (?r + 1)) = (real ?r + 1)\<^sup>2"
    by (simp_all add: power2_eq_square algebra_simps)
  ultimately have "(real ?r)\<^sup>2 \<le> real n" and "real n < (real ?r + 1)\<^sup>2"
    by (simp_all only:)
  then have "real ?r \<le> sqrt (real n)" and "sqrt (real n) < real ?r + 1"
    by (simp_all add: real_le_rsqrt real_less_lsqrt)
  then show ?thesis
    by (simp add: floor_eq_iff)
qed

lemma is_odd_square_iff:
  "is_odd_square n \<longleftrightarrow> (\<exists>side::nat. odd side \<and> n = int side * int side)"
proof
  assume "is_odd_square n"
  then show "\<exists>side::nat. odd side \<and> n = int side * int side"
    unfolding is_odd_square_def by (intro exI [of _ "floor_sqrt (nat n)"]) simp
next
  assume "\<exists>side::nat. odd side \<and> n = int side * int side"
  then obtain side :: nat where s: "odd side" "n = int side * int side" by blast
  then have "nat n = side * side" by (simp add: nat_mult_distrib)
  then have "floor_sqrt (nat n) = side" by (simp add: floor_sqrt_square)
  moreover from s have "0 < n" by (cases side) auto
  ultimately show "is_odd_square n"
    using s by (simp add: is_odd_square_def)
qed

lemma sample_range_odd_square:
  assumes "odd side" and "n = int side * int side"
  shows "sample_range n = (- (int side div 2), int side div 2 + 1)"
proof -
  have fs: "floor_sqrt (nat n) = side"
    using assms(2) by (simp add: nat_mult_distrib floor_sqrt_square)
  from assms(1) have half: "int side - int side div 2 = int side div 2 + 1"
    by presburger
  show ?thesis
  proof (cases "1 < n")
    case True
    with fs half show ?thesis by (simp add: sample_range_def Let_def)
  next
    case False
    have "side = 1"
    proof (rule ccontr)
      assume "side \<noteq> 1"
      with assms(1) have "2 \<le> side" by (cases side) auto
      then have "2 * 2 \<le> side * side" by (intro mult_le_mono)
      then have "4 \<le> int side * int side"
        by (metis of_nat_le_iff of_nat_mult of_nat_numeral numeral_times_numeral semiring_norm(12,13))
      with False assms(2) show False by simp
    qed
    with False show ?thesis by (simp add: sample_range_def assms(2))
  qed
qed

text \<open>
  The bounds of the model are those of the source, computed with the real square root
  and \<open>int\<close>.
\<close>

lemma sample_range_sqrt:
  assumes "1 < n"
  shows "fst (sample_range n) = - py_int (sqrt (real_of_int n) / 2)"
    and "snd (sample_range n)
          = py_int (sqrt (real_of_int n) + real_of_int (fst (sample_range n)))"
proof -
  let ?r = "floor_sqrt (nat n)"
  from assms have rn: "real_of_int n = real (nat n)" by simp
  have fl: "\<lfloor>sqrt (real_of_int n)\<rfloor> = int ?r"
    unfolding rn by (rule floor_sqrt_real)
  have "\<lfloor>sqrt (real_of_int n) / 2\<rfloor> = \<lfloor>sqrt (real_of_int n)\<rfloor> div 2"
    using floor_divide_real_eq_div [of 2 "sqrt (real_of_int n)"] by simp
  with fl have half: "py_int (sqrt (real_of_int n) / 2) = int ?r div 2"
    using assms by (simp add: py_int_def)
  with assms show 1: "fst (sample_range n) = - py_int (sqrt (real_of_int n) / 2)"
    by (simp add: sample_range_def Let_def)
  have "real_of_int (int ?r) \<le> sqrt (real_of_int n)"
    using fl by linarith
  moreover have "real_of_int (int ?r div 2) \<le> real_of_int (int ?r)"
    by (simp add: of_int_le_iff del: of_int_of_nat_eq) 
  ultimately have nonneg: "0 \<le> sqrt (real_of_int n) + real_of_int (- (int ?r div 2))"
    by simp
  have "\<lfloor>sqrt (real_of_int n) + real_of_int (- (int ?r div 2))\<rfloor> = int ?r - int ?r div 2"
    using fl floor_add_int [of "sqrt (real_of_int n)" "- (int ?r div 2)"] by simp
  with nonneg have "py_int (sqrt (real_of_int n) + real_of_int (- (int ?r div 2))) = int ?r - int ?r div 2"
    by (simp only: py_int_def if_True)
  with assms show "snd (sample_range n)
          = py_int (sqrt (real_of_int n) + real_of_int (fst (sample_range n)))"
    by (simp add: sample_range_def Let_def)
qed

lemma sample_offsets_odd_square:
  assumes "is_odd_square n"
  shows "sample_offsets n = [- (int (floor_sqrt (nat n)) div 2) .. int (floor_sqrt (nat n)) div 2]"
    and "length (sample_offsets n) = floor_sqrt (nat n)"
    and "length (sample_offsets n) * length (sample_offsets n) = nat n"
proof -
  let ?s = "floor_sqrt (nat n)"
  from assms have odd: "odd ?s" and n: "n = int ?s * int ?s"
    by (simp_all add: is_odd_square_def)
  then show 1: "sample_offsets n = [- (int ?s div 2) .. int ?s div 2]"
    by (simp add: sample_offsets_def sample_range_odd_square [OF odd n] py_range_def)
  from odd show 2: "length (sample_offsets n) = ?s"
    unfolding 1 by simp
  from n have "nat n = ?s * ?s"
    by (metis nat_int of_nat_mult)
  then show "length (sample_offsets n) * length (sample_offsets n) = nat n"
    unfolding 2 by simp
qed

text \<open>
  C4: when \<open>num_examples_per_patch = side * side\<close> with \<open>side\<close> odd, the offsets along
  each axis are the integers from \<open>-floor(sqrt(n)/2)\<close> to
  \<open>-floor(sqrt(n)/2) + sqrt(n) - 1\<close>, that is \<open>[-floor(side/2), floor(side/2)]\<close>; there
  are \<open>side\<close> of them. The branch for \<open>n = 1\<close> gives the single offset 0, which is what
  the formula gives for \<open>side = 1\<close>.
\<close>

theorem sample_offsets_centred:
  assumes "odd side" and "n = int side * int side"
  shows "sample_offsets n = [- (int side div 2) .. int side div 2]
       \<and> sample_offsets n = [- \<lfloor>sqrt (real_of_int n) / 2\<rfloor> ..
                               - \<lfloor>sqrt (real_of_int n) / 2\<rfloor> + \<lfloor>sqrt (real_of_int n)\<rfloor> - 1]
       \<and> sqrt (real_of_int n) = real side
       \<and> length (sample_offsets n) = side
       \<and> sample_offsets 1 = [0]"
proof -
  have a: "sample_offsets n = [- (int side div 2) .. int side div 2]"
    by (simp add: sample_offsets_def sample_range_odd_square [OF assms] py_range_def)
  have root: "sqrt (real_of_int n) = real side"
    by (simp add: assms(2))
  have f1: "\<lfloor>sqrt (real_of_int n) / 2\<rfloor> = int side div 2"
    using floor_divide_real_eq_div [of 2 "real side"] by (simp add: root)
  have f2: "\<lfloor>sqrt (real_of_int n)\<rfloor> = int side"
    by (simp add: root)
  from assms(1) have f3: "- (int side div 2) + int side - 1 = int side div 2"
    by presburger
  have b: "[- \<lfloor>sqrt (real_of_int n) / 2\<rfloor> ..
        - \<lfloor>sqrt (real_of_int n) / 2\<rfloor> + \<lfloor>sqrt (real_of_int n)\<rfloor> - 1]
      = [- (int side div 2) .. int side div 2]"
    by (simp only: f1 f2 f3)
  have c: "length [- (int side div 2) .. int side div 2] = side"
    using assms(1) by simp
  have d: "sample_offsets 1 = [0]"
    by (simp add: sample_offsets_def sample_range_def py_range_def)
  from a b c d root show ?thesis by simp
qed

theorem sample_offsets_centred_witness:
  "odd (3::nat) \<and> sample_offsets 9 = [- 1, 0, 1] \<and> sqrt 9 = 3 \<and> length (sample_offsets 9) = 3"
  using sample_offsets_centred [of 3 9] by (simp add: upto_rec1)

subsection \<open>Slices inside the array\<close>

lemma slice_bound_inside: "0 \<le> i \<Longrightarrow> i \<le> int n \<Longrightarrow> slice_bound n i = nat i"
  by (simp add: slice_bound_def)

lemma py_slice_inside:
  assumes "0 \<le> a" and "0 \<le> k" and "a + k \<le> int (length xs)"
  shows "py_slice a (a + k) xs = take (nat k) (drop (nat a) xs)"
proof -
  from assms have "slice_bound (length xs) a = nat a"
    and "slice_bound (length xs) (a + k) = nat (a + k)"
    by (simp_all add: slice_bound_inside)
  moreover from assms have "nat (a + k) - nat a = nat k" by simp
  ultimately show ?thesis by (simp add: py_slice_def)
qed

lemma slice_len_inside:
  assumes "0 \<le> a" and "0 \<le> k" and "a + k \<le> int n"
  shows "slice_len n a (a + k) = nat k"
  using assms by (simp add: slice_len_def slice_bound_inside)

lemma broadcast_axis_same: "length xs = n \<Longrightarrow> broadcast_axis n xs = xs"
  by (simp add: broadcast_axis_def)

text \<open>
  A slice that lies inside the array has the shape of the slot, so the assignment
  stores the window as it is.
\<close>

lemma getitem_inside:
  assumes wf: "wf_ndarray3 img"
    and "0 \<le> y0" "0 \<le> h" "y0 + h \<le> int (shape0 img)"
    and "0 \<le> x0" "0 \<le> w" "x0 + w \<le> int (shape1 img)"
  shows "broadcast_to (nat h) (nat w) (shape2 img) (getitem_slices img y0 (y0 + h) x0 (x0 + w))
           = Inr (window img y0 x0 h w)"
proof -
  from wf have len: "length (items img) = shape0 img"
    and rows: "\<And>row. row \<in> set (items img) \<Longrightarrow> length row = shape1 img"
    and pxs: "\<And>row px. row \<in> set (items img) \<Longrightarrow> px \<in> set row \<Longrightarrow> length px = shape2 img"
    by (auto simp: wf_ndarray3_def)
  have s0: "slice_len (shape0 img) y0 (y0 + h) = nat h"
    using assms by (simp add: slice_len_inside)
  have s1: "slice_len (shape1 img) x0 (x0 + w) = nat w"
    using assms by (simp add: slice_len_inside)
  have outer: "py_slice y0 (y0 + h) (items img) = take (nat h) (drop (nat y0) (items img))"
    using assms len by (simp add: py_slice_inside)
  have sub: "set (take (nat h) (drop (nat y0) (items img))) \<subseteq> set (items img)"
    by (meson set_take_subset set_drop_subset subset_trans)
  have inner: "map (py_slice x0 (x0 + w)) (take (nat h) (drop (nat y0) (items img)))
             = window img y0 x0 h w"
    unfolding window_def
  proof (rule map_cong [OF refl])
    fix row assume "row \<in> set (take (nat h) (drop (nat y0) (items img)))"
    with sub have "length row = shape1 img" by (auto dest: rows)
    with assms show "py_slice x0 (x0 + w) row = take (nat w) (drop (nat x0) row)"
      by (simp add: py_slice_inside)
  qed
  have lenw: "length (window img y0 x0 h w) = nat h"
    using assms len by (simp add: window_def)
  have bc: "map (\<lambda>row. broadcast_axis (nat w) (map (broadcast_axis (shape2 img)) row))
              (window img y0 x0 h w) = window img y0 x0 h w"
  proof (rule map_idI)
    fix row assume r: "row \<in> set (window img y0 x0 h w)"
    then obtain row0 where row0: "row0 \<in> set (items img)"
      and row: "row = take (nat w) (drop (nat x0) row0)"
      using sub by (auto simp: window_def)
    have "set row \<subseteq> set row0"
      unfolding row by (meson set_take_subset set_drop_subset subset_trans)
    with row0 have "map (broadcast_axis (shape2 img)) row = row"
      by (intro map_idI broadcast_axis_same) (auto dest: pxs)
    moreover from row0 assms have "length row = nat w"
      unfolding row by (simp add: rows)
    ultimately show "broadcast_axis (nat w) (map (broadcast_axis (shape2 img)) row) = row"
      by (simp add: broadcast_axis_same)
  qed
  show ?thesis
    by (simp add: broadcast_to_def getitem_slices_def s0 s1 outer inner bc lenw broadcast_axis_same)
qed

subsection \<open>Padding keeps the array well formed\<close>

lemma reflect_index_less: "0 < n \<Longrightarrow> reflect_index n i < n"
proof -
  assume n: "0 < n"
  then have "0 \<le> i mod int (2 * n)" and "i mod int (2 * n) < int (2 * n)"
    by simp_all
  then have "nat (i mod int (2 * n)) < 2 * n" by linarith
  with n show ?thesis
    by (auto simp: reflect_index_def Let_def)
qed

lemma length_pad_symmetric: "length (pad_symmetric p xs) = length xs + 2 * nat p"
  by (simp add: pad_symmetric_def)

lemma set_pad_symmetric:
  assumes "xs \<noteq> [] \<or> p \<le> 0"
  shows "set (pad_symmetric p xs) \<subseteq> set xs"
proof (cases "xs = []")
  case True
  with assms show ?thesis by (simp add: pad_symmetric_def)
next
  case False
  then have "reflect_index (length xs) i < length xs" for i
    by (simp add: reflect_index_less)
  then show ?thesis
    by (auto simp: pad_symmetric_def)
qed

lemma wf_np_pad_symmetric:
  assumes wf: "wf_ndarray3 img" and pad: "np_pad_symmetric img py px = Inr padded"
  shows "wf_ndarray3 padded"
proof -
  from pad have py: "0 \<le> py" "shape0 img = 0 \<longrightarrow> py = 0"
    and px: "0 \<le> px" "shape1 img = 0 \<longrightarrow> px = 0"
    and padded: "padded = Ndarray3 (shape0 img + 2 * nat py) (shape1 img + 2 * nat px) (shape2 img)
                   (map (pad_symmetric px) (pad_symmetric py (items img)))"
    by (auto simp: np_pad_symmetric_def split: if_splits)
  from wf have len: "length (items img) = shape0 img"
    and rows: "\<And>row. row \<in> set (items img) \<Longrightarrow> length row = shape1 img"
    and pxs: "\<And>row px. row \<in> set (items img) \<Longrightarrow> px \<in> set row \<Longrightarrow> length px = shape2 img"
    by (auto simp: wf_ndarray3_def)
  from py len have sub0: "set (pad_symmetric py (items img)) \<subseteq> set (items img)"
    by (intro set_pad_symmetric) auto
  have "length (pad_symmetric px row) = shape1 img + 2 * nat px
        \<and> (\<forall>p \<in> set (pad_symmetric px row). length p = shape2 img)"
    if "row \<in> set (pad_symmetric py (items img))" for row
  proof -
    from that sub0 have r: "row \<in> set (items img)" by blast
    then have l: "length row = shape1 img" by (rule rows)
    with px have "set (pad_symmetric px row) \<subseteq> set row"
      by (intro set_pad_symmetric) auto
    with r l show ?thesis
      by (auto simp: length_pad_symmetric dest: pxs)
  qed
  then show ?thesis
    by (simp add: wf_ndarray3_def padded length_pad_symmetric len)
qed

subsection \<open>The loops on a valid input\<close>

lemma update_filled:
  assumes "length xs < N"
  shows "(xs @ replicate (N - length xs) z)[length xs := v]
           = (xs @ [v]) @ replicate (N - length (xs @ [v])) z"
proof -
  from assms obtain k where k: "N - length xs = Suc k" 
    by (metis Suc_diff_Suc)
  then have "N - length (xs @ [v]) = k" by simp
  with k show ?thesis by (simp add: list_update_append)
qed

lemma update_filled_map:
  assumes "length es < N"
  shows "(map f es @ replicate (N - length es) z)[length es := f e]
           = map f (es @ [e]) @ replicate (N - length (es @ [e])) z"
  using update_filled [of "map f es" N z "f e"] assms by simp

lemma for_each_append:
  assumes step: "\<And>x es. x \<in> set xs \<Longrightarrow> length es + length (f x) \<le> N
                   \<Longrightarrow> body x (st es) = Inr (st (es @ f x))"
    and cap: "length es + length (concat (map f xs)) \<le> N"
  shows "for_each xs body (st es) = Inr (st (es @ concat (map f xs)))"
  using assms
proof (induction xs arbitrary: es)
  case Nil
  then show ?case by simp
next
  case (Cons x xs)
  from Cons.prems(2) have c1: "length es + length (f x) \<le> N"
    and c2: "length (es @ f x) + length (concat (map f xs)) \<le> N"
    by simp_all
  from c1 have "body x (st es) = Inr (st (es @ f x))"
    by (intro Cons.prems(1)) simp_all
  moreover have "for_each xs body (st (es @ f x)) = Inr (st ((es @ f x) @ concat (map f xs)))"
    using c2 by (intro Cons.IH Cons.prems(1)) simp_all
  ultimately show ?case by simp
qed

lemma int_half_nonneg: "0 \<le> k \<Longrightarrow> int_half k = k div 2"
  by (simp add: int_half_def)

lemma extract_one_filled:
  assumes wf: "wf_ndarray3 img"
    and cap: "length es < N"
    and pos: "0 < ph" "0 < pw"
    and y0: "y0 = fst loc - h - (ph - 1) div 2"
    and x0: "x0 = snd loc - w - (pw - 1) div 2"
    and inside: "0 \<le> y0" "y0 + ph \<le> int (shape0 img)" "0 \<le> x0" "x0 + pw \<le> int (shape1 img)"
  shows "extract_one ph pw img lab loc h w (filled N z es ct)
           = Inr (filled N z (es @ [(lab, ct, window img y0 x0 ph pw)]) ct)"
proof -
  have bc: "broadcast_to (nat ph) (nat pw) (shape2 img)
              (getitem_slices img y0 (y0 + ph) x0 (x0 + pw)) = Inr (window img y0 x0 ph pw)"
    using wf pos inside by (intro getitem_inside) simp_all
  have l: "(map (\<lambda>e. Some (fst e)) es @ replicate (N - length es) None)[length es := Some lab]
      = map (\<lambda>e. Some (fst e)) (es @ [(lab, ct, window img y0 x0 ph pw)])
        @ replicate (N - length (es @ [(lab, ct, window img y0 x0 ph pw)])) None"
    using update_filled_map [OF cap, of "\<lambda>e. Some (fst e)" None "(lab, ct, window img y0 x0 ph pw)"]
    by simp
  have c: "(map (\<lambda>e. Some (fst (snd e))) es @ replicate (N - length es) None)[length es := Some ct]
      = map (\<lambda>e. Some (fst (snd e))) (es @ [(lab, ct, window img y0 x0 ph pw)])
        @ replicate (N - length (es @ [(lab, ct, window img y0 x0 ph pw)])) None"
    using update_filled_map [OF cap, of "\<lambda>e. Some (fst (snd e))" None "(lab, ct, window img y0 x0 ph pw)"]
    by simp
  have p: "(map (\<lambda>e. snd (snd e)) es @ replicate (N - length es) z)
             [length es := window img y0 x0 ph pw]
      = map (\<lambda>e. snd (snd e)) (es @ [(lab, ct, window img y0 x0 ph pw)])
        @ replicate (N - length (es @ [(lab, ct, window img y0 x0 ph pw)])) z"
    using update_filled_map [OF cap, of "\<lambda>e. snd (snd e)" z "(lab, ct, window img y0 x0 ph pw)"]
    by simp
  from pos have halves: "int_half (ph - 1) = (ph - 1) div 2" "int_half (pw - 1) = (pw - 1) div 2"
    by (simp_all add: int_half_nonneg)
  have "extract_one ph pw img lab loc h w (filled N z es ct)
      = Inr ((filled N z es ct)
          \<lparr>labels := (labels (filled N z es ct))[length es := Some lab],
           cell_id := (cell_id (filled N z es ct))[length es := Some ct],
           img_patches := (img_patches (filled N z es ct))[length es := window img y0 x0 ph pw],
           iter_tot := length es + 1\<rparr>)"
    using cap bc by (simp add: extract_one_def Let_def halves y0 [symmetric] x0 [symmetric] filled_def)
  also have "\<dots> = Inr (filled N z (es @ [(lab, ct, window img y0 x0 ph pw)]) ct)"
    unfolding filled_def using l c p by simp
  finally show ?thesis .
qed

lemma length_concat_map_const:
  "(\<And>x. x \<in> set xs \<Longrightarrow> length (f x) = m) \<Longrightarrow> length (concat (map f xs)) = length xs * m"
  by (induction xs) simp_all

lemma length_point_entries:
  "length (point_entries self padded row ct)
     = length (sample_offsets (num_examples_per_patch self))
       * length (sample_offsets (num_examples_per_patch self))"
  unfolding point_entries_def by (rule length_concat_map_const) simp

lemma length_all_entries:
  "length (all_entries self padded ct rows)
     = length rows * (length (sample_offsets (num_examples_per_patch self))
                      * length (sample_offsets (num_examples_per_patch self)))"
  by (induction rows arbitrary: ct) (simp_all add: length_point_entries)

lemma filled_cell_tot: "(filled N z es ct)\<lparr>cell_tot := ct'\<rparr> = filled N z es ct'"
  by (simp add: filled_def)

lemma cell_tot_filled: "cell_tot (filled N z es ct) = ct"
  by (simp add: filled_def)

lemma extract_row_filled:
  fixes self :: PointsPatchExtractor and padded :: "'a ndarray3"
  defines "offs \<equiv> sample_offsets (num_examples_per_patch self)"
  assumes wf: "wf_ndarray3 padded"
    and pos: "0 < img_patch_h self" "0 < img_patch_w self"
    and row: "3 \<le> length row"
    and inside: "\<forall>h \<in> set offs. \<forall>w \<in> set offs. window_inside self padded row h w"
    and cap: "length es + length offs * length offs \<le> N"
  shows "extract_row (img_patch_h self) (img_patch_w self) (pad_y self) (pad_x self)
           (num_examples_per_patch self) padded row (filled N z es ct)
         = Inr (filled N z (es @ point_entries self padded row ct) (ct + 1))"
proof -
  let ?ph = "img_patch_h self" and ?pw = "img_patch_w self"
  let ?loc = "(row ! 2 + pad_y self - 1, row ! 1 + pad_x self - 1)"
  let ?entry = "\<lambda>h w. (row ! 0, ct, window padded (window_top self row h) (window_left self row w) ?ph ?pw)"
  have inner: "for_each offs (extract_one ?ph ?pw padded (row ! 0) ?loc h) (filled N z es' ct)
             = Inr (filled N z (es' @ concat (map (\<lambda>w. [?entry h w]) offs)) ct)"
    if h: "h \<in> set offs" and c: "length es' + length (concat (map (\<lambda>w. [?entry h w]) offs)) \<le> N"
    for h es'
  proof (rule for_each_append [where st = "\<lambda>es. filled N z es ct" and f = "\<lambda>w. [?entry h w]"
        and N = N, OF _ c])
    fix w and es'' :: "(int \<times> int \<times> 'a list list list) list"
    assume w: "w \<in> set offs" and "length es'' + length [?entry h w] \<le> N"
    then have "length es'' < N" by simp
    moreover from inside h w have "window_inside self padded row h w" by blast
    ultimately show "extract_one ?ph ?pw padded (row ! 0) ?loc h w (filled N z es'' ct)
        = Inr (filled N z (es'' @ [?entry h w]) ct)"
      using wf pos
      by (intro extract_one_filled) (simp_all add: window_inside_def window_top_def window_left_def)
  qed
  have flat: "concat (map (\<lambda>w. [?entry h w]) offs) = map (?entry h) offs" for h
    by (induction offs) simp_all
  have total: "length (concat (map (\<lambda>h. map (?entry h) offs) offs)) = length offs * length offs"
    by (rule length_concat_map_const) simp
  have "for_each offs (\<lambda>h. for_each offs (extract_one ?ph ?pw padded (row ! 0) ?loc h))
          (filled N z es ct)
      = Inr (filled N z (es @ concat (map (\<lambda>h. map (?entry h) offs) offs)) ct)"
  proof (rule for_each_append [where st = "\<lambda>es. filled N z es ct"
        and f = "\<lambda>h. map (?entry h) offs" and N = N])
    fix h and es' :: "(int \<times> int \<times> 'a list list list) list"
    assume "h \<in> set offs" and "length es' + length (map (?entry h) offs) \<le> N"
    then show "for_each offs (extract_one ?ph ?pw padded (row ! 0) ?loc h) (filled N z es' ct)
        = Inr (filled N z (es' @ map (?entry h) offs) ct)"
      using inner [of h es'] by (simp add: flat)
  next
    show "length es + length (concat (map (\<lambda>h. map (?entry h) offs) offs)) \<le> N"
      using cap by (simp only: total)
  qed
  then have "for_each offs (\<lambda>h. for_each offs (extract_one ?ph ?pw padded (row ! 0) ?loc h))
          (filled N z es ct) = Inr (filled N z (es @ point_entries self padded row ct) ct)"
    by (simp add: point_entries_def offs_def)
  with row show ?thesis
    by (simp add: extract_row_def Let_def offs_def [symmetric] sample_offsets_def [symmetric]
        filled_cell_tot cell_tot_filled)
qed

lemma for_each_rows_filled:
  fixes self :: PointsPatchExtractor and padded :: "'a ndarray3"
  defines "offs \<equiv> sample_offsets (num_examples_per_patch self)"
  assumes wf: "wf_ndarray3 padded"
    and pos: "0 < img_patch_h self" "0 < img_patch_w self"
    and rows: "\<forall>row \<in> set rows. 3 \<le> length row
                 \<and> (\<forall>h \<in> set offs. \<forall>w \<in> set offs. window_inside self padded row h w)"
    and cap: "length es + length rows * (length offs * length offs) \<le> N"
  shows "for_each rows
           (extract_row (img_patch_h self) (img_patch_w self) (pad_y self) (pad_x self)
              (num_examples_per_patch self) padded) (filled N z es ct)
         = Inr (filled N z (es @ all_entries self padded ct rows) (ct + int (length rows)))"
  using rows cap
proof (induction rows arbitrary: es ct)
  case Nil
  then show ?case by simp
next
  case (Cons row rows)
  from Cons.prems have c1: "length es + length offs * length offs \<le> N"
    and c2: "length (es @ point_entries self padded row ct)
               + length rows * (length offs * length offs) \<le> N"
    by (simp_all add: length_point_entries offs_def)
  from Cons.prems(1) have r: "3 \<le> length row"
    and ins: "\<forall>h \<in> set offs. \<forall>w \<in> set offs. window_inside self padded row h w"
    by simp_all
  have "extract_row (img_patch_h self) (img_patch_w self) (pad_y self) (pad_x self)
           (num_examples_per_patch self) padded row (filled N z es ct)
         = Inr (filled N z (es @ point_entries self padded row ct) (ct + 1))"
    using wf pos r ins c1 unfolding offs_def by (rule extract_row_filled)
  moreover have "for_each rows
           (extract_row (img_patch_h self) (img_patch_w self) (pad_y self) (pad_x self)
              (num_examples_per_patch self) padded)
           (filled N z (es @ point_entries self padded row ct) (ct + 1))
         = Inr (filled N z ((es @ point_entries self padded row ct)
                              @ all_entries self padded (ct + 1) rows)
                  (ct + 1 + int (length rows)))"
    using Cons.prems(1) c2 by (intro Cons.IH) simp_all
  ultimately show ?case by (simp add: algebra_simps)
qed

lemma filled_full:
  assumes "length es = N"
  shows "img_patches (filled N z es ct) = map (\<lambda>e. snd (snd e)) es"
    and "labels (filled N z es ct) = map (\<lambda>e. Some (fst e)) es"
    and "cell_id (filled N z es ct) = map (\<lambda>e. Some (fst (snd e))) es"
  using assms by (simp_all add: filled_def)

text \<open>The result of the extraction on a valid input, in closed form.\<close>

lemma extract_from_arrays_valid:
  fixes self :: PointsPatchExtractor and img :: "'a::zero ndarray3"
  assumes valid: "valid_input self img"
    and points: "input_points self = PointsNdarray points"
    and pad: "np_pad_symmetric img (pad_y self) (pad_x self) = Inr padded"
  shows "extract_from_arrays self points img
         = Inr (map (\<lambda>e. snd (snd e)) (all_entries self padded 1 points),
                map (\<lambda>e. Some (fst e)) (all_entries self padded 1 points),
                map (\<lambda>e. Some (fst (snd e))) (all_entries self padded 1 points))"
proof -
  let ?n = "num_examples_per_patch self"
  let ?offs = "sample_offsets ?n"
  let ?N = "nat (int (length points) * ?n)"
  let ?z = "zeros3 (nat (img_patch_h self)) (nat (img_patch_w self)) (shape2 padded) :: 'a list list list"
  from valid have wf: "wf_ndarray3 img" and pos: "0 < img_patch_h self" "0 < img_patch_w self"
    and sq: "is_odd_square ?n"
    by (simp_all add: valid_input_def)
  from valid points pad
  have rows: "\<forall>row \<in> set points. 3 \<le> length row
                 \<and> (\<forall>h \<in> set ?offs. \<forall>w \<in> set ?offs. window_inside self padded row h w)"
    by (simp add: valid_input_def)
  from sq have npos: "0 < ?n" by (simp add: is_odd_square_def)
  have N: "?N = length points * (length ?offs * length ?offs)"
    using npos by (simp add: sample_offsets_odd_square(3) [OF sq] nat_mult_distrib)
  have wfp: "wf_ndarray3 padded"
    using wf pad by (rule wf_np_pad_symmetric)
  have init: "\<lparr>labels = replicate ?N None, cell_id = replicate ?N None,
               img_patches = replicate ?N ?z, cell_tot = 1, iter_tot = 0\<rparr> = filled ?N ?z [] 1"
    by (simp add: filled_def)
  have run: "for_each points
           (extract_row (img_patch_h self) (img_patch_w self) (pad_y self) (pad_x self) ?n padded)
           (filled ?N ?z [] 1)
         = Inr (filled ?N ?z ([] @ all_entries self padded 1 points) (1 + int (length points)))"
    using wfp pos rows by (rule for_each_rows_filled) (simp add: N)
  have full: "length (all_entries self padded 1 points) = ?N"
    by (simp only: length_all_entries N)
  from npos pos have ok: "\<not> (int (length points) * ?n < 0 \<or> img_patch_h self < 0 \<or> img_patch_w self < 0)"
    by (simp add: mult_less_0_iff)
  show ?thesis
    using pad ok run full
    by (simp add: extract_from_arrays_def Let_def init filled_full)
qed

lemma nth_concat_map_const:
  assumes "\<And>x. x \<in> set xs \<Longrightarrow> length (f x) = m" and "i < length xs * m"
  shows "concat (map f xs) ! i = f (xs ! (i div m)) ! (i mod m)"
  using assms
proof (induction xs arbitrary: i)
  case Nil
  then show ?case by simp
next
  case (Cons x xs)
  from Cons.prems(2) have m: "0 < m" by (cases m) auto
  show ?case
  proof (cases "i < m")
    case True
    with Cons.prems(1) [of x] show ?thesis by (simp add: nth_append)
  next
    case False
    then have i: "i = (i - m) + m" by simp
    from False Cons.prems(2) have lt: "i - m < length xs * m" by simp
    from False m have d: "i div m = Suc ((i - m) div m)" and r: "i mod m = (i - m) mod m"
      by (simp_all add: le_div_geq le_mod_geq)
    have "concat (map f (x # xs)) ! i = concat (map f xs) ! (i - m)"
      using False Cons.prems(1) [of x] by (simp add: nth_append)
    also have "\<dots> = f (xs ! ((i - m) div m)) ! ((i - m) mod m)"
      using lt Cons.prems(1) by (intro Cons.IH) simp_all
    finally show ?thesis by (simp add: d r)
  qed
qed

lemma nth_point_entries:
  fixes self :: PointsPatchExtractor
  defines "offs \<equiv> sample_offsets (num_examples_per_patch self)"
  assumes "j < length offs * length offs"
  shows "point_entries self padded row ct ! j
         = (row ! 0, ct,
            window padded (window_top self row (offs ! (j div length offs)))
              (window_left self row (offs ! (j mod length offs)))
              (img_patch_h self) (img_patch_w self))"
proof -
  from assms(2) have pos: "0 < length offs" by (cases "length offs") auto
  then have "j mod length offs < length offs" by simp
  then show ?thesis
    unfolding point_entries_def offs_def [symmetric]
    using assms(2) by (subst nth_concat_map_const [where m = "length offs"]) simp_all
qed

lemma nth_all_entries:
  fixes self :: PointsPatchExtractor
  defines "m \<equiv> length (sample_offsets (num_examples_per_patch self))
                 * length (sample_offsets (num_examples_per_patch self))"
  assumes "i < length rows * m"
  shows "all_entries self padded ct rows ! i
         = point_entries self padded (rows ! (i div m)) (ct + int (i div m)) ! (i mod m)"
  using assms(2)
proof (induction rows arbitrary: i ct)
  case Nil
  then show ?case by simp
next
  case (Cons row rows)
  from Cons.prems have m: "0 < m" by (cases m) auto
  have len: "length (point_entries self padded row ct) = m"
    by (simp add: length_point_entries m_def)
  show ?case
  proof (cases "i < m")
    case True
    then show ?thesis by (simp add: nth_append len)
  next
    case False
    from False Cons.prems have lt: "i - m < length rows * m" by simp
    from False m have d: "i div m = Suc ((i - m) div m)" and r: "i mod m = (i - m) mod m"
      by (simp_all add: le_div_geq le_mod_geq)
    have "all_entries self padded ct (row # rows) ! i = all_entries self padded (ct + 1) rows ! (i - m)"
      using False by (simp add: nth_append len)
    also have "\<dots> = point_entries self padded (rows ! ((i - m) div m))
                      (ct + 1 + int ((i - m) div m)) ! ((i - m) mod m)"
      using lt by (rule Cons.IH)
    finally show ?thesis by (simp add: d r algebra_simps)
  qed
qed

lemma extract_patches_resolved:
  assumes "input_points self = PointsNdarray points" and "image_of disk input_img = Some img"
  shows "fst (extract_patches disk self input_img) = extract_from_arrays self points img"
  using assms
  by (cases input_img) (simp_all add: extract_patches_def image_of_def imread_def split: option.splits)

subsection \<open>The preallocated sequences keep their length\<close>

lemma for_each_invariant:
  assumes "for_each xs body s = Inr s'" and "P s"
    and "\<And>x s s'. x \<in> set xs \<Longrightarrow> P s \<Longrightarrow> body x s = Inr s' \<Longrightarrow> P s'"
  shows "P s'"
  using assms
proof (induction xs arbitrary: s)
  case Nil
  then show ?case by simp
next
  case (Cons x xs)
  from Cons.prems(1) obtain s1 where b: "body x s = Inr s1" and r: "for_each xs body s1 = Inr s'"
    by (auto split: sum.splits)
  from b Cons.prems(2) have "P s1"
    by (intro Cons.prems(3) [of x s s1]) simp_all
  with r show ?case
    using Cons.prems(3) by (intro Cons.IH [of s1]) auto
qed

lemma extract_one_slots:
  "slots N s \<Longrightarrow> extract_one ph pw img ct loc h w s = Inr s' \<Longrightarrow> slots N s'"
  by (auto simp: extract_one_def Let_def slots_def split: if_splits sum.splits)

lemma extract_row_slots:
  assumes "slots N s" and "extract_row ph pw py px n img row s = Inr s'"
  shows "slots N s'"
proof -
  let ?r = "py_range (fst (sample_range n)) (snd (sample_range n))"
  let ?loc = "(row ! 2 + py - 1, row ! 1 + px - 1)"
  from assms(2) obtain s1 where
    run: "for_each ?r (\<lambda>h. for_each ?r (\<lambda>w. extract_one ph pw img (row ! 0) ?loc h w)) s = Inr s1"
    and s': "s' = s1\<lparr>cell_tot := cell_tot s1 + 1\<rparr>"
    by (auto simp: extract_row_def Let_def split: if_splits sum.splits)
  from run assms(1) have "slots N s1"
  proof (rule for_each_invariant)
    fix h t t'
    assume t: "slots N t"
      and "for_each ?r (\<lambda>w. extract_one ph pw img (row ! 0) ?loc h w) t = Inr t'"
    from this(2) t show "slots N t'"
      by (rule for_each_invariant) (rule extract_one_slots)
  qed
  then show ?thesis by (simp add: s' slots_def)
qed

lemma extract_from_arrays_lengths:
  assumes "extract_from_arrays self points img = Inr (patches, labs, ids)"
  shows "int (length patches) = int (length points) * num_examples_per_patch self
       \<and> length labs = length patches \<and> length ids = length patches"
proof -
  let ?num = "int (length points) * num_examples_per_patch self"
  from assms obtain padded where pad: "np_pad_symmetric img (pad_y self) (pad_x self) = Inr padded"
    by (cases "np_pad_symmetric img (pad_y self) (pad_x self)") (simp_all add: extract_from_arrays_def)
  let ?s0 = "\<lparr>labels = replicate (nat ?num) None, cell_id = replicate (nat ?num) None,
              img_patches = replicate (nat ?num)
                (zeros3 (nat (img_patch_h self)) (nat (img_patch_w self)) (shape2 padded)),
              cell_tot = 1, iter_tot = 0\<rparr>"
  from assms pad have nonneg: "0 \<le> ?num"
    by (auto simp: extract_from_arrays_def Let_def split: if_splits)
  have s0: "slots (nat ?num) ?s0"
    by (simp add: slots_def)
  from assms pad nonneg obtain s where
    run: "for_each points
          (extract_row (img_patch_h self) (img_patch_w self) (pad_y self) (pad_x self)
             (num_examples_per_patch self) padded) ?s0 = Inr s"
    and res: "patches = img_patches s" "labs = labels s" "ids = cell_id s"
    by (auto simp: extract_from_arrays_def Let_def split: sum.splits if_splits)
  from run s0 have "slots (nat ?num) s"
    by (rule for_each_invariant) (rule extract_row_slots)
  with nonneg res show ?thesis
    by (simp add: slots_def)
qed

text \<open>
  C1: on every valid input \<open>extract_patches\<close> returns a triple, and whenever it
  returns one, the number of patches is \<open>len(points) * num_examples_per_patch\<close> and the
  labels and the identifiers are as many as the patches.
\<close>

theorem extract_patches_counts:
  fixes img :: "'a::zero ndarray3"
  assumes "input_points self = PointsNdarray points" and "image_of disk input_img = Some img"
  shows "(valid_input self img \<longrightarrow>
            (\<exists>patches labs ids. fst (extract_patches disk self input_img) = Inr (patches, labs, ids)))
       \<and> (\<forall>patches labs ids.
            fst (extract_patches disk self input_img) = Inr (patches, labs, ids) \<longrightarrow>
              int (length patches) = int (length points) * num_examples_per_patch self
              \<and> length labs = length patches \<and> length ids = length patches)"
proof (rule conjI)
  show "valid_input self img \<longrightarrow>
      (\<exists>patches labs ids. fst (extract_patches disk self input_img) = Inr (patches, labs, ids))"
  proof
    assume v: "valid_input self img"
    with assms(1) obtain padded where "np_pad_symmetric img (pad_y self) (pad_x self) = Inr padded"
      by (auto simp: valid_input_def split: sum.splits)
    with v assms show "\<exists>patches labs ids.
        fst (extract_patches disk self input_img) = Inr (patches, labs, ids)"
      by (simp add: extract_patches_resolved extract_from_arrays_valid)
  qed
next
  show "\<forall>patches labs ids.
      fst (extract_patches disk self input_img) = Inr (patches, labs, ids) \<longrightarrow>
        int (length patches) = int (length points) * num_examples_per_patch self
        \<and> length labs = length patches \<and> length ids = length patches"
  proof (intro allI impI)
    fix patches labs ids
    assume "fst (extract_patches disk self input_img) = Inr (patches, labs, ids)"
    with assms have "extract_from_arrays self points img = Inr (patches, labs, ids)"
      by (simp add: extract_patches_resolved)
    then show "int (length patches) = int (length points) * num_examples_per_patch self
                \<and> length labs = length patches \<and> length ids = length patches"
      by (rule extract_from_arrays_lengths)
  qed
qed

theorem extract_patches_counts_witness:
  "valid_input
     \<lparr>img_patch_h = 3, img_patch_w = 3, pad_y = 2, pad_x = 2,
      input_points = PointsNdarray [[7, 2, 2], [8, 3, 1]], num_examples_per_patch = 9\<rparr>
     (Ndarray3 3 3 1 [[[1], [2], [3]], [[4], [5], [6]], [[7], [8], [9::nat]]])
   \<and> (\<exists>patches labs ids.
        fst (extract_patches (\<lambda>p. None)
               \<lparr>img_patch_h = 3, img_patch_w = 3, pad_y = 2, pad_x = 2,
                input_points = PointsNdarray [[7, 2, 2], [8, 3, 1]], num_examples_per_patch = 9\<rparr>
               (ImageNdarray (Ndarray3 3 3 1 [[[1], [2], [3]], [[4], [5], [6]], [[7], [8], [9::nat]]])))
          = Inr (patches, labs, ids)
        \<and> length patches = 18 \<and> length labs = 18 \<and> length ids = 18)"
proof -
  let ?self = "\<lparr>img_patch_h = 3, img_patch_w = 3, pad_y = 2, pad_x = 2,
      input_points = PointsNdarray [[7, 2, 2], [8, 3, 1]], num_examples_per_patch = 9\<rparr>"
  let ?img = "Ndarray3 3 3 1 [[[1], [2], [3]], [[4], [5], [6]], [[7], [8], [9::nat]]]"
  have v: "valid_input ?self ?img"
    by code_simp
  have "image_of (\<lambda>p. None) (ImageNdarray ?img) = Some ?img"
    by (simp add: image_of_def)
  from extract_patches_counts [of ?self "[[7, 2, 2], [8, 3, 1]]" "\<lambda>p. None" "ImageNdarray ?img" ?img,
      OF _ this] v
  show ?thesis
    by (simp del: One_nat_def) fastforce
qed

subsection \<open>The entries of the result\<close>

lemma nth_sample_offsets:
  assumes "is_odd_square n" and "k < floor_sqrt (nat n)"
  shows "sample_offsets n ! k = int k - int (floor_sqrt (nat n)) div 2"
proof -
  let ?s = "floor_sqrt (nat n)"
  from assms(1) have "odd ?s" by (simp add: is_odd_square_def)
  then have "2 * (int ?s div 2) + 1 = int ?s" by presburger
  with assms(2) have "- (int ?s div 2) + int k \<le> int ?s div 2" by linarith
  then show ?thesis
    by (simp add: sample_offsets_odd_square(1) [OF assms(1)])
qed

lemma extract_patches_valid_returns:
  fixes self :: PointsPatchExtractor and img :: "'a::zero ndarray3"
  assumes "valid_input self img"
    and "input_points self = PointsNdarray points"
    and "image_of disk input_img = Some img"
  shows "\<exists>patches labs ids. fst (extract_patches disk self input_img) = Inr (patches, labs, ids)"
proof -
  from assms(1,2) obtain padded where "np_pad_symmetric img (pad_y self) (pad_x self) = Inr padded"
    by (cases "np_pad_symmetric img (pad_y self) (pad_x self)") (simp_all add: valid_input_def)
  with assms show ?thesis
    by (simp add: extract_patches_resolved extract_from_arrays_valid)
qed

text \<open>
  Entry \<open>i\<close> of the result on a valid input: it belongs to point \<open>i div n\<close> and, among
  the \<open>n = side * side\<close> entries of that point, to the row offset of index
  \<open>i mod n div side\<close> and the column offset of index \<open>i mod n mod side\<close>.
\<close>

lemma extract_patches_valid_nth:
  fixes self :: PointsPatchExtractor and img :: "'a::zero ndarray3"
  assumes valid: "valid_input self img"
    and points: "input_points self = PointsNdarray points"
    and image: "image_of disk input_img = Some img"
    and pad: "np_pad_symmetric img (pad_y self) (pad_x self) = Inr padded"
    and result: "fst (extract_patches disk self input_img) = Inr (patches, labs, ids)"
    and n: "n = nat (num_examples_per_patch self)"
    and s: "side = floor_sqrt (nat (num_examples_per_patch self))"
    and i: "i < length points * n"
  shows "patches ! i = window padded
              (window_top self (points ! (i div n)) (int (i mod n div side) - int side div 2))
              (window_left self (points ! (i div n)) (int (i mod n mod side) - int side div 2))
              (img_patch_h self) (img_patch_w self)
         \<and> labs ! i = Some (points ! (i div n) ! 0)
         \<and> ids ! i = Some (int (i div n) + 1)"
proof -
  let ?all = "all_entries self padded 1 points"
  let ?offs = "sample_offsets (num_examples_per_patch self)"
  from valid have sq: "is_odd_square (num_examples_per_patch self)"
    by (simp add: valid_input_def)
  have side: "length ?offs = side"
    by (simp add: s sample_offsets_odd_square(2) [OF sq])
  have nn: "n = side * side"
    using sample_offsets_odd_square(3) [OF sq] by (simp add: n side)
  have len: "length ?all = length points * n"
    by (simp add: length_all_entries side nn)
  have "fst (extract_patches disk self input_img)
      = Inr (map (\<lambda>e. snd (snd e)) ?all, map (\<lambda>e. Some (fst e)) ?all,
             map (\<lambda>e. Some (fst (snd e))) ?all)"
    using valid points image pad
    by (simp add: extract_patches_resolved extract_from_arrays_valid)
  with result have res:
    "patches = map (\<lambda>e. snd (snd e)) ?all"
    "labs = map (\<lambda>e. Some (fst e)) ?all"
    "ids = map (\<lambda>e. Some (fst (snd e))) ?all"
    by simp_all
  from i have npos: "0 < n" by (cases n) auto
  with nn have spos: "0 < side" by (cases side) auto
  have j: "i mod n < side * side"
    using npos nn by simp
  then have a: "i mod n div side < side"
    by (simp add: less_mult_imp_div_less)
  from spos have b: "i mod n mod side < side" by simp
  have "?all ! i = point_entries self padded (points ! (i div n)) (1 + int (i div n)) ! (i mod n)"
    using i nth_all_entries [of i points self padded 1] by (simp add: side nn)
  also have "\<dots> = (points ! (i div n) ! 0, 1 + int (i div n),
      window padded
        (window_top self (points ! (i div n)) (?offs ! (i mod n div side)))
        (window_left self (points ! (i div n)) (?offs ! (i mod n mod side)))
        (img_patch_h self) (img_patch_w self))"
    using j nth_point_entries [of "i mod n" self padded "points ! (i div n)" "1 + int (i div n)"]
    by (simp add: side)
  finally have entry: "?all ! i = (points ! (i div n) ! 0, 1 + int (i div n),
      window padded
        (window_top self (points ! (i div n)) (int (i mod n div side) - int side div 2))
        (window_left self (points ! (i div n)) (int (i mod n mod side) - int side div 2))
        (img_patch_h self) (img_patch_w self))"
    using a b nth_sample_offsets [OF sq] by (simp add: s)
  from i len have "i < length ?all" by simp
  then show ?thesis
    by (simp add: res entry)
qed

lemma example_valid:
  "valid_input (example_extractor 9) example_image"
  "valid_input (example_extractor 1) example_image"
  by code_simp+

lemma example_pad:
  "np_pad_symmetric example_image (pad_y (example_extractor n)) (pad_x (example_extractor n))
     = Inr example_padded"
  by (simp add: example_extractor_def) code_simp

lemma example_facts:
  "input_points (example_extractor n) = PointsNdarray [[7, 1, 1], [8, 1, 1]]"
  "image_of (\<lambda>p. None) (ImageNdarray example_image) = Some example_image"
  by (simp_all add: example_extractor_def image_of_def)

lemma example_sizes:
  "9 = nat (num_examples_per_patch (example_extractor 9))"
  "3 = floor_sqrt (nat (num_examples_per_patch (example_extractor 9)))"
  "1 = nat (num_examples_per_patch (example_extractor 1))"
  "1 = floor_sqrt (nat (num_examples_per_patch (example_extractor 1)))"
  by (simp_all add: example_extractor_def) code_simp

lemma example_offsets:
  "sample_offsets (num_examples_per_patch (example_extractor 9)) = [- 1, 0, 1]"
  "sample_offsets (num_examples_per_patch (example_extractor 1)) = [0]"
  by (simp_all add: example_extractor_def) code_simp+

text \<open>
  C5: on a valid input the entries are in insertion order, all \<open>n\<close> entries of a point
  (row offsets outermost, column offsets innermost) before those of the next point:
  entry \<open>i\<close> has the identifier \<open>floor(i / n) + 1\<close>, the label of point \<open>floor(i / n)\<close>
  and the patch of that point at the offsets of index \<open>i mod n div side\<close> and
  \<open>i mod n mod side\<close>. The identifier grows by one per point, not per patch.
\<close>

theorem extract_patches_order:
  fixes self :: PointsPatchExtractor and img :: "'a::zero ndarray3"
  assumes valid: "valid_input self img"
    and points: "input_points self = PointsNdarray points"
    and image: "image_of disk input_img = Some img"
    and pad: "np_pad_symmetric img (pad_y self) (pad_x self) = Inr padded"
    and n: "n = nat (num_examples_per_patch self)"
    and s: "side = floor_sqrt (nat (num_examples_per_patch self))"
  shows "\<exists>patches labs ids.
           fst (extract_patches disk self input_img) = Inr (patches, labs, ids)
           \<and> (\<forall>i < length points * n.
                 ids ! i = Some (int (i div n) + 1)
                 \<and> labs ! i = Some (points ! (i div n) ! 0)
                 \<and> patches ! i = window padded
                     (window_top self (points ! (i div n)) (int (i mod n div side) - int side div 2))
                     (window_left self (points ! (i div n)) (int (i mod n mod side) - int side div 2))
                     (img_patch_h self) (img_patch_w self))"
proof -
  from extract_patches_valid_returns [OF valid points image]
  obtain patches labs ids where
    res: "fst (extract_patches disk self input_img) = Inr (patches, labs, ids)"
    by (elim exE)
  have "\<forall>i < length points * n.
          ids ! i = Some (int (i div n) + 1)
          \<and> labs ! i = Some (points ! (i div n) ! 0)
          \<and> patches ! i = window padded
              (window_top self (points ! (i div n)) (int (i mod n div side) - int side div 2))
              (window_left self (points ! (i div n)) (int (i mod n mod side) - int side div 2))
              (img_patch_h self) (img_patch_w self)"
  proof (intro allI impI)
    fix i assume "i < length points * n"
    from extract_patches_valid_nth [OF valid points image pad res n s this]
    show "ids ! i = Some (int (i div n) + 1)
          \<and> labs ! i = Some (points ! (i div n) ! 0)
          \<and> patches ! i = window padded
              (window_top self (points ! (i div n)) (int (i mod n div side) - int side div 2))
              (window_left self (points ! (i div n)) (int (i mod n mod side) - int side div 2))
              (img_patch_h self) (img_patch_w self)"
      by simp
  qed
  with res show ?thesis
    by (intro exI conjI)
qed

theorem extract_patches_order_witness:
  "valid_input (example_extractor 9) example_image
   \<and> (\<exists>patches labs ids.
         fst (extract_patches (\<lambda>p. None) (example_extractor 9) (ImageNdarray example_image))
           = Inr (patches, labs, ids)
         \<and> ids ! 8 = Some 1 \<and> labs ! 8 = Some 7
         \<and> ids ! 9 = Some 2 \<and> labs ! 9 = Some 8
         \<and> patches ! 15 = [[[2], [2]], [[2], [2]]])"
proof -
  from extract_patches_order [OF example_valid(1) example_facts example_pad example_sizes(1,2)]
  obtain patches labs ids where
    res: "fst (extract_patches (\<lambda>p. None) (example_extractor 9) (ImageNdarray example_image))
           = Inr (patches, labs, ids)"
    and all: "\<forall>i < length [[7, 1, 1], [8, 1, 1::int]] * 9.
        ids ! i = Some (int (i div 9) + 1)
        \<and> labs ! i = Some ([[7, 1, 1], [8, 1, 1]] ! (i div 9) ! 0)
        \<and> patches ! i = window example_padded
            (window_top (example_extractor 9) ([[7, 1, 1], [8, 1, 1]] ! (i div 9))
               (int (i mod 9 div 3) - int 3 div 2))
            (window_left (example_extractor 9) ([[7, 1, 1], [8, 1, 1]] ! (i div 9))
               (int (i mod 9 mod 3) - int 3 div 2))
            (img_patch_h (example_extractor 9)) (img_patch_w (example_extractor 9))"
    by (elim exE conjE)
  from all [rule_format, of 8] all [rule_format, of 9] all [rule_format, of 15]
  have "ids ! 8 = Some 1 \<and> labs ! 8 = Some 7
        \<and> ids ! 9 = Some 2 \<and> labs ! 9 = Some 8
        \<and> patches ! 15 = [[[2], [2]], [[2], [2]]]"
    by (simp add: example_extractor_def example_padded_def window_def window_top_def
        window_left_def)
  with res example_valid(1) show ?thesis
    by (intro conjI exI [of _ patches] exI [of _ labs] exI [of _ ids]) simp_all
qed

subsection \<open>The patches are windows of the padded image\<close>

lemma nth_window:
  assumes "0 \<le> y0" "0 \<le> x0" "0 \<le> h" "0 \<le> w"
    and "y0 + h \<le> int (length rows)"
    and "\<forall>row \<in> set rows. x0 + w \<le> int (length row)"
    and "r < nat h" and "c < nat w"
  shows "length (map (\<lambda>row. take (nat w) (drop (nat x0) row)) (take (nat h) (drop (nat y0) rows))) = nat h"
    and "length (map (\<lambda>row. take (nat w) (drop (nat x0) row)) (take (nat h) (drop (nat y0) rows)) ! r) = nat w"
    and "map (\<lambda>row. take (nat w) (drop (nat x0) row)) (take (nat h) (drop (nat y0) rows)) ! r ! c
          = rows ! (nat y0 + r) ! (nat x0 + c)"
proof -
  from assms have lh: "nat y0 + nat h \<le> length rows" by linarith
  then show l: "length (map (\<lambda>row. take (nat w) (drop (nat x0) row)) (take (nat h) (drop (nat y0) rows))) = nat h"
    by simp
  from lh assms(7) have rr: "nat y0 + r < length rows" by simp
  then have "rows ! (nat y0 + r) \<in> set rows" by simp
  with assms(6) have "x0 + w \<le> int (length (rows ! (nat y0 + r)))" by blast
  with assms have lw: "nat x0 + nat w \<le> length (rows ! (nat y0 + r))" by linarith
  have row: "map (\<lambda>row. take (nat w) (drop (nat x0) row)) (take (nat h) (drop (nat y0) rows)) ! r
      = take (nat w) (drop (nat x0) (rows ! (nat y0 + r)))"
    using lh assms(7) by simp
  from lw show "length (map (\<lambda>row. take (nat w) (drop (nat x0) row)) (take (nat h) (drop (nat y0) rows)) ! r) = nat w"
    unfolding row by simp
  from lw assms(8) show "map (\<lambda>row. take (nat w) (drop (nat x0) row)) (take (nat h) (drop (nat y0) rows)) ! r ! c
          = rows ! (nat y0 + r) ! (nat x0 + c)"
    unfolding row by simp
qed

lemma block_index:
  fixes k r n :: nat
  assumes "r < n"
  shows "(k * n + r) div n = k" and "(k * n + r) mod n = r"
  using assms by simp_all

lemma offset_index:
  assumes sq: "is_odd_square n" and h: "h \<in> set (sample_offsets n)"
  defines "side \<equiv> floor_sqrt (nat n)"
  shows "nat (h + int side div 2) < side" and "int (nat (h + int side div 2)) - int side div 2 = h"
proof -
  from sq have "odd side" by (simp add: is_odd_square_def side_def)
  then have *: "2 * (int side div 2) + 1 = int side" by presburger
  from h have "- (int side div 2) \<le> h" and "h \<le> int side div 2"
    by (simp_all add: sample_offsets_odd_square(1) [OF sq] side_def)
  with * show "nat (h + int side div 2) < side"
    and "int (nat (h + int side div 2)) - int side div 2 = h"
    by linarith+
qed

lemma patch_at_offset:
  fixes self :: PointsPatchExtractor and img :: "'a::zero ndarray3"
  assumes valid: "valid_input self img"
    and points: "input_points self = PointsNdarray points"
    and image: "image_of disk input_img = Some img"
    and pad: "np_pad_symmetric img (pad_y self) (pad_x self) = Inr padded"
    and result: "fst (extract_patches disk self input_img) = Inr (patches, labs, ids)"
    and n: "n = nat (num_examples_per_patch self)"
    and s: "side = floor_sqrt (nat (num_examples_per_patch self))"
    and k: "k < length points"
    and h: "h \<in> set (sample_offsets (num_examples_per_patch self))"
    and w: "w \<in> set (sample_offsets (num_examples_per_patch self))"
    and i: "i = k * n + nat (h + int side div 2) * side + nat (w + int side div 2)"
    and y0: "y0 = window_top self (points ! k) h"
    and x0: "x0 = window_left self (points ! k) w"
  shows "0 \<le> y0 \<and> y0 + img_patch_h self \<le> int (shape0 padded)
       \<and> 0 \<le> x0 \<and> x0 + img_patch_w self \<le> int (shape1 padded)"
    and "patches ! i = window padded y0 x0 (img_patch_h self) (img_patch_w self)"
    and "length (patches ! i) = nat (img_patch_h self)"
    and "\<And>r c. r < nat (img_patch_h self) \<Longrightarrow> c < nat (img_patch_w self) \<Longrightarrow>
           length (patches ! i ! r) = nat (img_patch_w self)
           \<and> patches ! i ! r ! c = items padded ! (nat y0 + r) ! (nat x0 + c)"
proof -
  let ?offs = "sample_offsets (num_examples_per_patch self)"
  let ?a = "nat (h + int side div 2)" and ?b = "nat (w + int side div 2)"
  from valid have sq: "is_odd_square (num_examples_per_patch self)"
    and wf: "wf_ndarray3 img" and pos: "0 < img_patch_h self" "0 < img_patch_w self"
    by (simp_all add: valid_input_def)
  have nn: "n = side * side"
    using sample_offsets_odd_square(2,3) [OF sq] by (simp add: n s)
  have a: "?a < side" "int ?a - int side div 2 = h"
    using offset_index [OF sq h] by (simp_all add: s)
  have b: "?b < side" "int ?b - int side div 2 = w"
    using offset_index [OF sq w] by (simp_all add: s)
  from a(1) have "?a + 1 \<le> side" by simp
  then have "(?a + 1) * side \<le> side * side" by (rule mult_le_mono1)
  with b(1) have j: "?a * side + ?b < n" by (simp add: nn)
  from k have "k + 1 \<le> length points" by simp
  then have "(k + 1) * n \<le> length points * n" by (rule mult_le_mono1)
  with j have lt: "i < length points * n" by (simp add: i add.assoc)
  have idx: "i div n = k" "i mod n = ?a * side + ?b"
    using block_index [OF j, of k] by (simp_all add: i add.assoc)
  have idx2: "(?a * side + ?b) div side = ?a" "(?a * side + ?b) mod side = ?b"
    using block_index [OF b(1), of ?a] by simp_all
  from extract_patches_valid_nth [OF valid points image pad result n s lt]
  have "patches ! i = window padded
          (window_top self (points ! (i div n)) (int (i mod n div side) - int side div 2))
          (window_left self (points ! (i div n)) (int (i mod n mod side) - int side div 2))
          (img_patch_h self) (img_patch_w self)"
    by (rule conjunct1)
  then show win: "patches ! i = window padded y0 x0 (img_patch_h self) (img_patch_w self)"
    by (simp only: idx idx2 a(2) b(2) y0 x0)
  from k have "points ! k \<in> set points" by simp
  with valid points pad h w have "window_inside self padded (points ! k) h w"
    by (simp add: valid_input_def)
  then show inside: "0 \<le> y0 \<and> y0 + img_patch_h self \<le> int (shape0 padded)
       \<and> 0 \<le> x0 \<and> x0 + img_patch_w self \<le> int (shape1 padded)"
    by (simp add: window_inside_def y0 x0)
  have wfp: "wf_ndarray3 padded"
    using wf pad by (rule wf_np_pad_symmetric)
  then have len: "length (items padded) = shape0 padded"
    and rows: "\<forall>row \<in> set (items padded). length row = shape1 padded"
    by (simp_all add: wf_ndarray3_def)
  from rows inside have rows': "\<forall>row \<in> set (items padded). x0 + img_patch_w self \<le> int (length row)"
    by simp
  from inside pos len have f:
    "0 \<le> y0" "0 \<le> x0" "0 \<le> img_patch_h self" "0 \<le> img_patch_w self"
    "y0 + img_patch_h self \<le> int (length (items padded))"
    by simp_all
  from pos have "0 < nat (img_patch_h self)" "0 < nat (img_patch_w self)" by simp_all
  from nth_window(1) [OF f rows' this]
  show "length (patches ! i) = nat (img_patch_h self)"
    unfolding win window_def .
  fix r c
  assume r: "r < nat (img_patch_h self)" and c: "c < nat (img_patch_w self)"
  from nth_window(2,3) [OF f rows' r c]
  show "length (patches ! i ! r) = nat (img_patch_w self)
        \<and> patches ! i ! r ! c = items padded ! (nat y0 + r) ! (nat x0 + c)"
    unfolding win window_def by simp
qed

text \<open>
  C3, with the precondition the code relies on: on a valid input (every window inside
  the padded image), for every point \<open>k\<close> (label, x, y) and every pair of offsets
  \<open>h\<close>, \<open>w\<close> the extracted patch is the \<open>patch_h \<times> patch_w\<close> window of the padded image
  whose top-left corner is
  \<open>(y + pad_y - 1 - h - floor((patch_h - 1) / 2), x + pad_x - 1 - w - floor((patch_w - 1) / 2))\<close>:
  item \<open>(r, c)\<close> of the patch is item \<open>(y0 + r, x0 + c)\<close> of the padded image. For
  \<open>num_examples_per_patch = 1\<close> the only offsets are \<open>(0, 0)\<close> and the item at
  \<open>(floor((patch_h - 1) / 2), floor((patch_w - 1) / 2))\<close> of the patch is the item of
  the padded image at \<open>(y + pad_y - 1, x + pad_x - 1)\<close>.
\<close>

theorem patch_is_window:
  fixes self :: PointsPatchExtractor and img :: "'a::zero ndarray3"
  assumes valid: "valid_input self img"
    and points: "input_points self = PointsNdarray points"
    and image: "image_of disk input_img = Some img"
    and pad: "np_pad_symmetric img (pad_y self) (pad_x self) = Inr padded"
    and n: "n = nat (num_examples_per_patch self)"
    and s: "side = floor_sqrt (nat (num_examples_per_patch self))"
    and k: "k < length points"
    and h: "h \<in> set (sample_offsets (num_examples_per_patch self))"
    and w: "w \<in> set (sample_offsets (num_examples_per_patch self))"
    and i: "i = k * n + nat (h + int side div 2) * side + nat (w + int side div 2)"
    and y0: "y0 = points ! k ! 2 + pad_y self - 1 - h - (img_patch_h self - 1) div 2"
    and x0: "x0 = points ! k ! 1 + pad_x self - 1 - w - (img_patch_w self - 1) div 2"
  shows "\<exists>patches labs ids.
           fst (extract_patches disk self input_img) = Inr (patches, labs, ids)
           \<and> 0 \<le> y0 \<and> y0 + img_patch_h self \<le> int (shape0 padded)
           \<and> 0 \<le> x0 \<and> x0 + img_patch_w self \<le> int (shape1 padded)
           \<and> patches ! i = window padded y0 x0 (img_patch_h self) (img_patch_w self)
           \<and> length (patches ! i) = nat (img_patch_h self)
           \<and> (\<forall>r < nat (img_patch_h self). \<forall>c < nat (img_patch_w self).
                 length (patches ! i ! r) = nat (img_patch_w self)
                 \<and> patches ! i ! r ! c = items padded ! (nat y0 + r) ! (nat x0 + c))
           \<and> (num_examples_per_patch self = 1 \<longrightarrow>
                 i = k \<and> h = 0 \<and> w = 0
                 \<and> patches ! k ! nat ((img_patch_h self - 1) div 2) ! nat ((img_patch_w self - 1) div 2)
                     = items padded ! nat (points ! k ! 2 + pad_y self - 1)
                                    ! nat (points ! k ! 1 + pad_x self - 1))"
proof -
  let ?ph = "img_patch_h self" and ?pw = "img_patch_w self"
  from extract_patches_valid_returns [OF valid points image]
  obtain patches labs ids where
    res: "fst (extract_patches disk self input_img) = Inr (patches, labs, ids)"
    by (elim exE)
  have y0': "y0 = window_top self (points ! k) h" and x0': "x0 = window_left self (points ! k) w"
    by (simp_all add: y0 x0 window_top_def window_left_def)
  note p = patch_at_offset [OF valid points image pad res n s k h w i y0' x0']
  from valid have pos: "0 < ?ph" "0 < ?pw" by (simp_all add: valid_input_def)
  have content: "\<forall>r < nat ?ph. \<forall>c < nat ?pw.
                 length (patches ! i ! r) = nat ?pw
                 \<and> patches ! i ! r ! c = items padded ! (nat y0 + r) ! (nat x0 + c)"
    using p(4) by (intro allI impI)
  have one: "i = k \<and> h = 0 \<and> w = 0
             \<and> patches ! k ! nat ((?ph - 1) div 2) ! nat ((?pw - 1) div 2)
                 = items padded ! nat (points ! k ! 2 + pad_y self - 1)
                                ! nat (points ! k ! 1 + pad_x self - 1)"
    if n1: "num_examples_per_patch self = 1"
  proof -
    from n1 have "sample_offsets (num_examples_per_patch self) = [0]"
      by (simp add: sample_offsets_def sample_range_def py_range_def)
    with h w have hw: "h = 0" "w = 0" by simp_all
    from n1 have "n = 1" "side = 1" by (simp_all add: n s)
    with hw have ik: "i = k" by (simp add: i)
    from pos have r: "nat ((?ph - 1) div 2) < nat ?ph" and c: "nat ((?pw - 1) div 2) < nat ?pw"
      by linarith+
    from p(1) pos hw have "nat y0 + nat ((?ph - 1) div 2) = nat (points ! k ! 2 + pad_y self - 1)"
      and "nat x0 + nat ((?pw - 1) div 2) = nat (points ! k ! 1 + pad_x self - 1)"
      unfolding y0 x0 by linarith+
    with p(4) [OF r c] ik hw show ?thesis by simp
  qed
  from res p(1) p(2) p(3) content one show ?thesis
    by (intro exI [of _ patches] exI [of _ labs] exI [of _ ids] conjI impI) simp_all
qed

theorem patch_is_window_witness:
  "valid_input (example_extractor 9) example_image
   \<and> (\<exists>patches labs ids.
         fst (extract_patches (\<lambda>p. None) (example_extractor 9) (ImageNdarray example_image))
           = Inr (patches, labs, ids)
         \<and> patches ! 15 = [[[2], [2]], [[2], [2]]])
   \<and> valid_input (example_extractor 1) example_image
   \<and> (\<exists>patches labs ids.
         fst (extract_patches (\<lambda>p. None) (example_extractor 1) (ImageNdarray example_image))
           = Inr (patches, labs, ids)
         \<and> patches ! 1 = [[[1], [2]], [[3], [4]]]
         \<and> patches ! 1 ! 0 ! 0 = items example_padded ! 1 ! 1)"
proof -
  have k: "(1::nat) < length [[7, 1, 1], [8, 1, 1::int]]"
    by simp
  have hw: "1 \<in> set (sample_offsets (num_examples_per_patch (example_extractor 9)))"
    "- 1 \<in> set (sample_offsets (num_examples_per_patch (example_extractor 9)))"
    by (simp_all add: example_offsets)
  have "(15::nat) = 1 * 9 + nat (1 + int 3 div 2) * 3 + nat (- 1 + int 3 div 2)"
    and "(0::int) = [[7, 1, 1], [8, 1, 1]] ! 1 ! 2 + pad_y (example_extractor 9) - 1 - 1
            - (img_patch_h (example_extractor 9) - 1) div 2"
    and "(2::int) = [[7, 1, 1], [8, 1, 1]] ! 1 ! 1 + pad_x (example_extractor 9) - 1 - (- 1)
            - (img_patch_w (example_extractor 9) - 1) div 2"
    by (simp_all add: example_extractor_def)
  from patch_is_window [OF example_valid(1) example_facts example_pad example_sizes(1,2) k hw this]
  obtain patches labs ids where
    "fst (extract_patches (\<lambda>p. None) (example_extractor 9) (ImageNdarray example_image))
           = Inr (patches, labs, ids)"
    and "patches ! 15 = window example_padded 0 2 (img_patch_h (example_extractor 9))
           (img_patch_w (example_extractor 9))"
    by (elim exE conjE)
  then have a: "\<exists>patches labs ids.
         fst (extract_patches (\<lambda>p. None) (example_extractor 9) (ImageNdarray example_image))
           = Inr (patches, labs, ids)
         \<and> patches ! 15 = [[[2], [2]], [[2], [2]]]"
    by (intro exI [of _ patches] exI [of _ labs] exI [of _ ids])
       (simp add: window_def example_padded_def example_extractor_def)
  have z: "0 \<in> set (sample_offsets (num_examples_per_patch (example_extractor 1)))"
    by (simp add: example_offsets)
  have "(1::nat) = 1 * 1 + nat (0 + int 1 div 2) * 1 + nat (0 + int 1 div 2)"
    and "(1::int) = [[7, 1, 1], [8, 1, 1]] ! 1 ! 2 + pad_y (example_extractor 1) - 1 - 0
            - (img_patch_h (example_extractor 1) - 1) div 2"
    and "(1::int) = [[7, 1, 1], [8, 1, 1]] ! 1 ! 1 + pad_x (example_extractor 1) - 1 - 0
            - (img_patch_w (example_extractor 1) - 1) div 2"
    by (simp_all add: example_extractor_def)
  from patch_is_window [OF example_valid(2) example_facts example_pad example_sizes(3,4) k z z this]
  obtain patches' labs' ids' where
    "fst (extract_patches (\<lambda>p. None) (example_extractor 1) (ImageNdarray example_image))
           = Inr (patches', labs', ids')"
    and "patches' ! 1 = window example_padded 1 1 (img_patch_h (example_extractor 1))
           (img_patch_w (example_extractor 1))"
    and "num_examples_per_patch (example_extractor 1) = 1 \<longrightarrow>
           1 = (1::nat) \<and> (0::int) = 0 \<and> (0::int) = 0
           \<and> patches' ! 1 ! nat ((img_patch_h (example_extractor 1) - 1) div 2)
                          ! nat ((img_patch_w (example_extractor 1) - 1) div 2)
             = items example_padded ! nat ([[7, 1, 1], [8, 1, 1]] ! 1 ! 2 + pad_y (example_extractor 1) - 1)
                 ! nat ([[7, 1, 1], [8, 1, 1]] ! 1 ! 1 + pad_x (example_extractor 1) - 1)"
    by (elim exE conjE)
  then have b: "\<exists>patches labs ids.
         fst (extract_patches (\<lambda>p. None) (example_extractor 1) (ImageNdarray example_image))
           = Inr (patches, labs, ids)
         \<and> patches ! 1 = [[[1], [2]], [[3], [4]]]
         \<and> patches ! 1 ! 0 ! 0 = items example_padded ! 1 ! 1"
    by (intro exI [of _ patches'] exI [of _ labs'] exI [of _ ids'])
       (simp add: window_def example_padded_def example_extractor_def)
  from a b example_valid show ?thesis by (intro conjI)
qed

text \<open>
  C3 as stated, for every point, fails: for a \<open>2 \<times> 2\<close> image without padding, a
  \<open>3 \<times> 3\<close> patch and the point \<open>x = 1\<close>, \<open>y = 1\<close>, the corner is \<open>(-1, -1)\<close>; the slice
  \<^verbatim>\<open>image[-1:2, -1:2]\<close> is the single item at \<open>(1, 1)\<close>, which the assignment
  broadcasts over the whole patch. The call returns, and the patch is no window of the
  padded image.
\<close>

theorem patch_is_window_counterexample:
  "fst (extract_patches (\<lambda>p. None)
          \<lparr>img_patch_h = 3, img_patch_w = 3, pad_y = 0, pad_x = 0,
           input_points = PointsNdarray [[7, 1, 1]], num_examples_per_patch = 1\<rparr>
          (ImageNdarray example_image))
     = Inr ([[[[4], [4], [4]], [[4], [4], [4]], [[4], [4], [4]]]], [Some 7], [Some 1])
   \<and> np_pad_symmetric example_image 0 0 = Inr example_image
   \<and> shape0 example_image = 2 \<and> shape1 example_image = 2
   \<and> window_top \<lparr>img_patch_h = 3, img_patch_w = 3, pad_y = 0, pad_x = 0,
           input_points = PointsNdarray [[7, 1, 1]], num_examples_per_patch = 1\<rparr> [7, 1, 1] 0 = - 1
   \<and> window_left \<lparr>img_patch_h = 3, img_patch_w = 3, pad_y = 0, pad_x = 0,
           input_points = PointsNdarray [[7, 1, 1]], num_examples_per_patch = 1\<rparr> [7, 1, 1] 0 = - 1"
  by code_simp

subsection \<open>extract_patches writes to its own objects only\<close>

lemma lookup_update:
  "lookup (heap[r := obj]) a = (if a = r \<and> r < length heap then Some obj else lookup heap a)"
  by (simp add: lookup_def)

lemma lookup_append:
  "lookup (heap @ [obj]) a = (if a = length heap then Some obj else lookup heap a)"
  by (simp add: lookup_def nth_append)

lemma lookup_less: "lookup heap a = Some obj \<Longrightarrow> a < length heap"
  by (simp add: lookup_def split: if_splits)

lemma extends_refl: "extends H H"
  by (simp add: extends_def)

lemma extends_update: "extends H heap \<Longrightarrow> length H \<le> r \<Longrightarrow> extends H (heap[r := obj])"
  by (simp add: extends_def)

lemma extends_append: "extends H heap \<Longrightarrow> extends H (heap @ [obj])"
  by (simp add: extends_def nth_append)

lemma extends_lookup:
  "extends H heap \<Longrightarrow> lookup H a = Some obj \<Longrightarrow> lookup heap a = Some obj"
  by (auto simp: extends_def lookup_def split: if_splits)

lemma extends_take: "extends H heap \<Longrightarrow> take (length H) heap = H"
  by (auto simp: extends_def intro: nth_equalityI)

text \<open>A loop of the first model and a loop on the store agree when their bodies do.\<close>

lemma for_each_sim:
  assumes "\<And>y st s. y \<in> set ys \<Longrightarrow> I st s \<Longrightarrow> sim F I (body (g y) s) (body_st y st)"
    and "I st s"
  shows "sim F I (for_each (map g ys) body s) (for_each_store ys body_st st)"
  using assms
proof (induction ys arbitrary: st s)
  case Nil
  then show ?case
    by (simp add: sim_def)
next
  case (Cons y ys)
  have step: "sim F I (body (g y) s) (body_st y st)"
    by (rule Cons.prems(1)) (simp_all add: Cons.prems(2))
  show ?case
  proof (cases "body (g y) s")
    case (Inl e)
    with step show ?thesis
      by (cases "body_st y st") (simp add: sim_def)
  next
    case (Inr s1)
    with step obtain st1 where b: "body_st y st = (None, st1)" and i: "I st1 s1"
      by (cases "body_st y st") (simp add: sim_def)
    have "sim F I (for_each (map g ys) body s1) (for_each_store ys body_st st1)"
      by (rule Cons.IH) (simp_all add: Cons.prems(1) i)
    with Inr b show ?thesis
      by simp
  qed
qed

text \<open>
  The body of the inner loop writes to \<open>labels\<close>, \<open>cell_id\<close> and \<open>img_patches\<close>, which were
  allocated after \<open>H\<close>, and computes what the first model computes.
\<close>

lemma extract_one_sim:
  assumes rel: "store_rel H ir pr lr cr padded st s"
    and loc: "lookup (objects st) loc = Some (VectorObj [y, x])"
    and fresh: "loc \<notin> {ir, pr, lr, cr}"
  shows "sim (\<lambda>st. extends H (objects st))
           (\<lambda>st s. store_rel H ir pr lr cr padded st s
                    \<and> lookup (objects st) loc = Some (VectorObj [y, x]))
           (extract_one ph pw padded ct (y, x) h w s)
           (extract_one_store ph pw ir pr lr cr ct loc h w st)"
proof -
  from rel have ext: "extends H (objects st)"
    and ge: "length H \<le> ir" "length H \<le> pr" "length H \<le> lr" "length H \<le> cr"
    and dist: "ir \<noteq> pr" "ir \<noteq> lr" "ir \<noteq> cr" "pr \<noteq> lr" "pr \<noteq> cr" "lr \<noteq> cr"
    and li: "lookup (objects st) ir = Some (Ndarray3Obj padded)"
    and lp: "lookup (objects st) pr = Some (PatchesObj (img_patches s))"
    and ll: "lookup (objects st) lr = Some (ListObj (labels s))"
    and lc: "lookup (objects st) cr = Some (ListObj (cell_id s))"
    and ct: "cell_total st = cell_tot s" and it: "iter_total st = iter_tot s"
    by (simp_all add: store_rel_def)
  from fresh have fr: "loc \<noteq> ir" "loc \<noteq> pr" "loc \<noteq> lr" "loc \<noteq> cr"
    by simp_all
  note lens = lookup_less [OF li] lookup_less [OF lp] lookup_less [OF ll] lookup_less [OF lc]
  show ?thesis
    using ext ge dist li lp ll lc ct it fr loc lens
    by (auto simp: sim_def extract_one_def extract_one_store_def getitem_vector_def
        setitem_list_def setitem_patches_def Let_def lookup_update store_rel_def extends_update
        split: sum.splits)
qed

lemma extract_row_sim:
  assumes rel: "store_rel H ir pr lr cr padded st s"
    and self: "lookup H self_r = Some (ExtractorObj ph0 pw0 py px pts n)"
    and points: "lookup H points_r = Some (PointsObj rows)"
    and k: "k < length rows"
  shows "sim (\<lambda>st. extends H (objects st)) (store_rel H ir pr lr cr padded)
           (extract_row ph pw py px n padded (rows ! k) s)
           (extract_row_store self_r ph pw points_r ir pr lr cr k st)"
proof -
  let ?F = "\<lambda>st :: 'a store_state. extends H (objects st)"
  from rel have ext: "extends H (objects st)"
    by (simp add: store_rel_def)
  note ls = extends_lookup [OF ext self] and lpts = extends_lookup [OF ext points]
  show ?thesis
  proof (cases "length (rows ! k) \<le> 2")
    case True
    with k ext show ?thesis
      by (simp add: sim_def extract_row_def extract_row_store_def lpts)
  next
    case False
    define row where "row = rows ! k"
    define loc where "loc = length (objects st)"
    define y where "y = row ! 2 + py - 1"
    define x where "x = row ! 1 + px - 1"
    define heap3 where "heap3 = objects st @ [VectorObj [y, x]]"
    define st3 where "st3 = st\<lparr>objects := heap3\<rparr>"
    let ?I = "\<lambda>st s. store_rel H ir pr lr cr padded st s
                \<and> lookup (objects st) loc = Some (VectorObj [y, x])"
    let ?r = "py_range (fst (sample_range n)) (snd (sample_range n))"
    from rel have refs: "lookup (objects st) ir = Some (Ndarray3Obj padded)"
      "lookup (objects st) pr = Some (PatchesObj (img_patches s))"
      "lookup (objects st) lr = Some (ListObj (labels s))"
      "lookup (objects st) cr = Some (ListObj (cell_id s))"
      by (simp_all add: store_rel_def)
    from refs [THEN lookup_less] have fresh: "loc \<notin> {ir, pr, lr, cr}"
      by (auto simp: loc_def)
    have I3: "?I st3 s"
      using rel fresh
      by (auto simp: store_rel_def st3_def heap3_def lookup_append loc_def extends_append
          dest: lookup_less)
    have loops: "sim ?F ?I
        (for_each ?r (\<lambda>h. for_each ?r (\<lambda>w. extract_one ph pw padded (row ! 0) (y, x) h w)) s)
        (for_each_store ?r (\<lambda>h. for_each_store ?r
            (\<lambda>w. extract_one_store ph pw ir pr lr cr (row ! 0) loc h w)) st3)"
    proof -
      have inner: "sim ?F ?I
          (for_each ?r (\<lambda>w. extract_one ph pw padded (row ! 0) (y, x) h w) s')
          (for_each_store ?r (\<lambda>w. extract_one_store ph pw ir pr lr cr (row ! 0) loc h w) st')"
        if i: "?I st' s'" for h st' s'
      proof -
        have "sim ?F ?I
            (for_each (map (\<lambda>w. w) ?r) (\<lambda>w. extract_one ph pw padded (row ! 0) (y, x) h w) s')
            (for_each_store ?r (\<lambda>w. extract_one_store ph pw ir pr lr cr (row ! 0) loc h w) st')"
        proof (rule for_each_sim [where g = "\<lambda>w. w" and I = ?I and F = ?F
              and body = "\<lambda>w. extract_one ph pw padded (row ! 0) (y, x) h w"])
          fix w st1 s1
          assume "?I st1 s1"
          then show "sim ?F ?I (extract_one ph pw padded (row ! 0) (y, x) h w s1)
              (extract_one_store ph pw ir pr lr cr (row ! 0) loc h w st1)"
            using extract_one_sim [OF _ _ fresh] by blast
        next
          show "?I st' s'"
            by (fact i)
        qed
        then show ?thesis
          by simp
      qed
      have "sim ?F ?I
          (for_each (map (\<lambda>h. h) ?r)
             (\<lambda>h. for_each ?r (\<lambda>w. extract_one ph pw padded (row ! 0) (y, x) h w)) s)
          (for_each_store ?r (\<lambda>h. for_each_store ?r
              (\<lambda>w. extract_one_store ph pw ir pr lr cr (row ! 0) loc h w)) st3)"
      proof (rule for_each_sim [where g = "\<lambda>h. h" and I = ?I and F = ?F
            and body = "\<lambda>h. for_each ?r (\<lambda>w. extract_one ph pw padded (row ! 0) (y, x) h w)"])
        fix h st1 s1
        assume "?I st1 s1"
        then show "sim ?F ?I
            (for_each ?r (\<lambda>w. extract_one ph pw padded (row ! 0) (y, x) h w) s1)
            (for_each_store ?r (\<lambda>w. extract_one_store ph pw ir pr lr cr (row ! 0) loc h w) st1)"
          by (rule inner)
      next
        show "?I st3 s"
          by (fact I3)
      qed
      then show ?thesis
        by simp
    qed
    have store: "extract_row_store self_r ph pw points_r ir pr lr cr k st =
        (case for_each_store ?r (\<lambda>h. for_each_store ?r
                (\<lambda>w. extract_one_store ph pw ir pr lr cr (row ! 0) loc h w)) st3 of
           (Some e, st') \<Rightarrow> (Some e, st')
         | (None, st') \<Rightarrow> (None, st'\<lparr>cell_total := cell_total st' + 1\<rparr>))"
      using False k
      by (simp add: extract_row_store_def lpts ls alloc_def setitem_vector_def lookup_append
          shift_item_def getitem_vector_def
          lookup_update Let_def row_def [symmetric] loc_def st3_def heap3_def y_def x_def)
    have pure: "extract_row ph pw py px n padded (rows ! k) s =
        (case for_each ?r (\<lambda>h. for_each ?r (\<lambda>w. extract_one ph pw padded (row ! 0) (y, x) h w)) s of
           Inl e \<Rightarrow> Inl e
         | Inr s' \<Rightarrow> Inr (s'\<lparr>cell_tot := cell_tot s' + 1\<rparr>))"
      using False by (simp add: extract_row_def Let_def row_def y_def x_def)
    show ?thesis
      unfolding store pure using loops
      by (auto simp: sim_def store_rel_def split: sum.splits prod.splits option.splits)
  qed
qed

text \<open>
  The store model refines the first model: the outcome read from the store after the
  call is the outcome of the first model on the arguments read from the store before
  the call, and every object of the store before the call is unchanged.
\<close>

lemma extract_from_arrays_store_refines:
  fixes heap :: "'a::zero pyobj list"
  assumes ext: "extends H heap"
    and self: "lookup H self_r = Some (ExtractorObj ph pw py px pts n)"
    and points: "lookup H points_r = Some (PointsObj rows)"
    and img: "lookup heap input_r = Some (Ndarray3Obj image_in)"
    and cfg: "img_patch_h self = ph" "img_patch_w self = pw" "pad_y self = py" "pad_x self = px"
      "num_examples_per_patch self = n"
    and run: "extract_from_arrays_store self_r points_r input_r heap = (outcome, heap')"
  shows "extends H heap'"
    and "result_of heap' outcome = Some (extract_from_arrays self rows image_in)"
    and "fresh_result heap outcome"
proof -
  let ?F = "\<lambda>st :: 'a store_state. extends H (objects st)"
  note ls = extends_lookup [OF ext self] and lpts = extends_lookup [OF ext points]
  from lookup_less [OF points] ext have pts_lt: "points_r < length heap"
    by (simp add: extends_def)
  have goal: "extends H heap' \<and> result_of heap' outcome = Some (extract_from_arrays self rows image_in)
      \<and> fresh_result heap outcome"
  proof (cases "np_pad_symmetric image_in py px")
    case (Inl e)
    with run ext show ?thesis
      by (auto simp: extract_from_arrays_store_def ls img extract_from_arrays_def cfg Let_def
          result_of_def fresh_result_def)
  next
    case (Inr padded)
    define num where "num = int (length rows) * n"
    show ?thesis
    proof (cases "num < 0 \<or> ph < 0 \<or> pw < 0")
      case True
      with run ext Inr pts_lt show ?thesis
        by (auto simp: extract_from_arrays_store_def ls img lpts extract_from_arrays_def cfg
            Let_def result_of_def fresh_result_def alloc_def lookup_append num_def extends_append)
    next
      case False
      define ir where "ir = length heap"
      define pr where "pr = Suc (length heap)"
      define lr where "lr = Suc (Suc (length heap))"
      define cr where "cr = Suc (Suc (Suc (length heap)))"
      define z :: "'a list list list" where "z = zeros3 (nat ph) (nat pw) (shape2 padded)"
      define heap4 where "heap4 = heap @ [Ndarray3Obj padded, PatchesObj (replicate (nat num) z),
          ListObj (replicate (nat num) None), ListObj (replicate (nat num) None)]"
      define st0 :: "'a store_state"
        where "st0 = \<lparr>objects = heap4, cell_total = 1, iter_total = 0\<rparr>"
      define s0 :: "'a loop_state"
        where "s0 = \<lparr>labels = replicate (nat num) None, cell_id = replicate (nat num) None,
          img_patches = replicate (nat num) z, cell_tot = 1, iter_tot = 0\<rparr>"
      have store: "extract_from_arrays_store self_r points_r input_r heap =
          (case for_each_store [0..<length rows]
                  (extract_row_store self_r ph pw points_r ir pr lr cr) st0 of
             (Some e, st) \<Rightarrow> (Inl e, objects st)
           | (None, st) \<Rightarrow> (Inr (pr, lr, cr), objects st))"
        using False Inr pts_lt
        by (simp add: extract_from_arrays_store_def ls img lpts alloc_def lookup_append Let_def
            num_def ir_def pr_def lr_def cr_def z_def heap4_def st0_def
            cong del: prod.case_cong_weak option.case_cong_weak)
      have pure: "extract_from_arrays self rows image_in =
          (case for_each rows (extract_row ph pw py px n padded) s0 of
             Inl e \<Rightarrow> Inl e
           | Inr s \<Rightarrow> Inr (img_patches s, labels s, cell_id s))"
        using False Inr
        by (simp add: extract_from_arrays_def cfg Let_def num_def z_def s0_def)
      have len: "length H \<le> length heap"
        using ext by (simp add: extends_def)
      have "extends H heap4"
        using ext by (simp add: extends_def heap4_def nth_append)
      then have rel0: "store_rel H ir pr lr cr padded st0 s0"
        using len
        by (simp add: store_rel_def st0_def s0_def heap4_def lookup_def nth_append ir_def pr_def
            lr_def cr_def)
      have "sim ?F (store_rel H ir pr lr cr padded)
          (for_each (map (\<lambda>k. rows ! k) [0..<length rows]) (extract_row ph pw py px n padded) s0)
          (for_each_store [0..<length rows]
             (extract_row_store self_r ph pw points_r ir pr lr cr) st0)"
      proof (rule for_each_sim [where g = "\<lambda>k. rows ! k" and F = ?F
            and I = "store_rel H ir pr lr cr padded"
            and body = "extract_row ph pw py px n padded"])
        fix k st s
        assume "k \<in> set [0..<length rows]" and "store_rel H ir pr lr cr padded st s"
        then show "sim ?F (store_rel H ir pr lr cr padded)
            (extract_row ph pw py px n padded (rows ! k) s)
            (extract_row_store self_r ph pw points_r ir pr lr cr k st)"
          using extract_row_sim [OF _ self points] by simp
      next
        show "store_rel H ir pr lr cr padded st0 s0"
          by (fact rel0)
      qed
      then have loops: "sim ?F (store_rel H ir pr lr cr padded)
          (for_each rows (extract_row ph pw py px n padded) s0)
          (for_each_store [0..<length rows]
             (extract_row_store self_r ph pw points_r ir pr lr cr) st0)"
        by (simp add: map_nth)
      show ?thesis
        using loops run unfolding store pure
        by (auto simp: sim_def store_rel_def result_of_def fresh_result_def ir_def pr_def lr_def
            cr_def split: sum.splits prod.splits option.splits)
    qed
  qed
  from goal show "extends H heap'"
    and "result_of heap' outcome = Some (extract_from_arrays self rows image_in)"
    and "fresh_result heap outcome"
    by simp_all
qed

lemma well_typed_points_cases:
  assumes "well_typed_points heap p"
  obtains (ndarray) a rows where "p = PointsNdarrayRef a" "lookup heap a = Some (PointsObj rows)"
      "points_arg_of heap p = PointsNdarray rows"
    | (none) "p = PointsNoneRef" "points_arg_of heap p = PointsNone"
    | (other) "p = PointsOtherRef" "points_arg_of heap p = PointsOther"
  using assms
  by (cases p) (auto simp: well_typed_points_def points_arg_of_def split: option.splits pyobj.splits)

lemma well_typed_image_cases:
  assumes "well_typed_image heap i"
  obtains (str) path where "i = ImageStrRef path" "image_arg_of heap i = ImageStr path"
    | (ndarray) a img where "i = ImageNdarrayRef a" "lookup heap a = Some (Ndarray3Obj img)"
      "image_arg_of heap i = ImageNdarray img"
    | (other_rank) "i = ImageNdarrayOtherRankRef" "image_arg_of heap i = ImageNdarrayOtherRank"
    | (other) "i = ImageOtherRef" "image_arg_of heap i = ImageOther"
  using assms
  by (cases i) (auto simp: well_typed_image_def image_arg_of_def split: option.splits pyobj.splits)

lemma well_typed_call_self:
  assumes "well_typed_call heap self_r input_img"
  obtains ph pw py px p n where "lookup heap self_r = Some (ExtractorObj ph pw py px p n)"
    "well_typed_points heap p" "well_typed_image heap input_img"
    "extractor_of heap self_r
       = Some \<lparr>img_patch_h = ph, img_patch_w = pw, pad_y = py, pad_x = px,
               input_points = points_arg_of heap p, num_examples_per_patch = n\<rparr>"
  using assms
  by (auto simp: well_typed_call_def extractor_of_def split: option.splits pyobj.splits)

lemma fresh_result_mono:
  "fresh_result heap1 outcome \<Longrightarrow> length heap \<le> length heap1 \<Longrightarrow> fresh_result heap outcome"
  by (auto simp: fresh_result_def split: sum.splits)

lemma extract_patches_store_refines:
  fixes heap :: "'a::zero pyobj list"
  assumes wt: "well_typed_call heap self_r input_img"
    and self: "extractor_of heap self_r = Some self"
    and run: "extract_patches_store disk self_r input_img heap = (outcome, reads, heap')"
  shows "extends heap heap'"
    and "result_of heap' outcome = Some (fst (extract_patches disk self (image_arg_of heap input_img)))"
    and "reads = snd (extract_patches disk self (image_arg_of heap input_img))"
    and "fresh_result heap outcome"
proof -
  from wt obtain ph pw py px p n
    where ls: "lookup heap self_r = Some (ExtractorObj ph pw py px p n)"
      and wp: "well_typed_points heap p" and wi: "well_typed_image heap input_img"
      and ex: "extractor_of heap self_r
         = Some \<lparr>img_patch_h = ph, img_patch_w = pw, pad_y = py, pad_x = px,
                 input_points = points_arg_of heap p, num_examples_per_patch = n\<rparr>"
    by (rule well_typed_call_self)
  from self ex have cfg: "img_patch_h self = ph" "img_patch_w self = pw" "pad_y self = py"
    "pad_x self = px" "num_examples_per_patch self = n"
    and pts: "input_points self = points_arg_of heap p"
    by auto
  let ?pure = "extract_patches disk self (image_arg_of heap input_img)"
  have goal: "extends heap heap' \<and> result_of heap' outcome = Some (fst ?pure)
      \<and> reads = snd ?pure \<and> fresh_result heap outcome"
    using wp
  proof (cases rule: well_typed_points_cases)
    case (ndarray a rows)
    note lp = ndarray(2)
    have pa: "input_points self = PointsNdarray rows"
      by (simp add: pts ndarray(3))
    from wi show ?thesis
    proof (cases rule: well_typed_image_cases)
      case (str path)
      show ?thesis
      proof (cases "imread disk path")
        case (Inl e)
        with run show ?thesis
          by (auto simp: extract_patches_store_def ls ndarray(1) str extract_patches_def pa
              extends_refl result_of_def fresh_result_def image_arg_of_def)
      next
        case (Inr img)
        define heap1 where "heap1 = heap @ [Ndarray3Obj img]"
        from run Inr have run1:
          "extract_from_arrays_store self_r a (length heap) heap1 = (outcome, heap')"
          and r: "reads = [path]"
          by (auto simp: extract_patches_store_def ls ndarray(1) str alloc_def heap1_def
              split: prod.splits)
        have e1: "extends heap heap1"
          by (simp add: heap1_def extends_append extends_refl)
        have li: "lookup heap1 (length heap) = Some (Ndarray3Obj img)"
          by (simp add: heap1_def lookup_append)
        note ref = extract_from_arrays_store_refines [OF e1 ls lp li cfg run1]
        from ref(3) have "fresh_result heap outcome"
          by (rule fresh_result_mono) (simp add: heap1_def)
        with ref(1,2) r Inr show ?thesis
          by (simp add: extract_patches_def pa str(1) image_arg_of_def)
      qed
    next
      case (ndarray b img)
      from run have run1: "extract_from_arrays_store self_r a b heap = (outcome, heap')"
        and r: "reads = []"
        by (auto simp: extract_patches_store_def ls \<open>p = PointsNdarrayRef a\<close> ndarray(1)
            split: prod.splits)
      note ref = extract_from_arrays_store_refines [OF extends_refl ls lp ndarray(2) cfg run1]
      with r show ?thesis
        by (simp add: extract_patches_def pa ndarray(1,2) image_arg_of_def)
    next
      case other_rank
      with run show ?thesis
        by (auto simp: extract_patches_store_def ls \<open>p = PointsNdarrayRef a\<close> extract_patches_def
            pa extends_refl result_of_def fresh_result_def image_arg_of_def)
    next
      case other
      with run show ?thesis
        by (auto simp: extract_patches_store_def ls \<open>p = PointsNdarrayRef a\<close> extract_patches_def
            pa extends_refl result_of_def fresh_result_def image_arg_of_def)
    qed
  next
    case none
    with run show ?thesis
      by (auto simp: extract_patches_store_def ls extract_patches_def pts extends_refl
          result_of_def fresh_result_def image_arg_of_def)
  next
    case other
    with run show ?thesis
      by (auto simp: extract_patches_store_def ls extract_patches_def pts extends_refl
          result_of_def fresh_result_def image_arg_of_def)
  qed
  from goal show "extends heap heap'"
    and "result_of heap' outcome = Some (fst ?pure)"
    and "reads = snd ?pure"
    and "fresh_result heap outcome"
    by simp_all
qed

lemma extends_well_typed:
  assumes ext: "extends heap heap1" and wt: "well_typed_call heap self_r input_img"
  shows "well_typed_call heap1 self_r input_img"
    and "extractor_of heap1 self_r = extractor_of heap self_r"
    and "image_arg_of heap1 input_img = image_arg_of heap input_img"
proof -
  from wt obtain ph pw py px p n
    where ls: "lookup heap self_r = Some (ExtractorObj ph pw py px p n)"
      and wp: "well_typed_points heap p" and wi: "well_typed_image heap input_img"
    by (rule well_typed_call_self)
  note ls1 = extends_lookup [OF ext ls]
  from wp have p: "well_typed_points heap1 p \<and> points_arg_of heap1 p = points_arg_of heap p"
  proof (cases rule: well_typed_points_cases)
    case (ndarray a rows)
    with extends_lookup [OF ext ndarray(2)] show ?thesis
      by (simp add: well_typed_points_def points_arg_of_def)
  qed (simp_all add: well_typed_points_def points_arg_of_def)
  from wi have i: "well_typed_image heap1 input_img
      \<and> image_arg_of heap1 input_img = image_arg_of heap input_img"
  proof (cases rule: well_typed_image_cases)
    case (ndarray a img)
    with extends_lookup [OF ext ndarray(2)] show ?thesis
      by (simp add: well_typed_image_def image_arg_of_def)
  qed (simp_all add: well_typed_image_def image_arg_of_def)
  from p i show "well_typed_call heap1 self_r input_img"
    by (simp add: well_typed_call_def ls1)
  from p show "extractor_of heap1 self_r = extractor_of heap self_r"
    by (simp add: extractor_of_def ls ls1)
  from i show "image_arg_of heap1 input_img = image_arg_of heap input_img"
    by simp
qed


text \<open>
  C9: \<open>extract_patches\<close> is deterministic and pure. In a store where the call is well
  typed, the call changes no object that was there before it (the instance with its
  configuration, the image and the points among them), and what it returns are new
  objects. A second call with the same arguments on the store that the first call left
  returns the same outcome, item for item, and hands the same paths to the loader; so
  does a call on any other store whose instance, image and points hold the same values.
\<close>

theorem extract_patches_deterministic_pure:
  fixes heap heap' :: "'a::zero pyobj list"
    and disk :: "string \<Rightarrow> 'a ndarray3 option"
    and self_r self_r' :: nat
    and input_img input_img' :: image_ref
  defines "call1 \<equiv> extract_patches_store disk self_r input_img heap"
  defines "call2 \<equiv> extract_patches_store disk self_r input_img (snd (snd call1))"
  defines "call3 \<equiv> extract_patches_store disk self_r' input_img' heap'"
  assumes wt: "well_typed_call heap self_r input_img"
    and wt': "well_typed_call heap' self_r' input_img'"
    and same: "extractor_of heap' self_r' = extractor_of heap self_r"
      "image_arg_of heap' input_img' = image_arg_of heap input_img"
  shows "take (length heap) (snd (snd call1)) = heap
       \<and> fresh_result heap (fst call1)
       \<and> (\<exists>result. result_of (snd (snd call1)) (fst call1) = Some result)
       \<and> result_of (snd (snd call2)) (fst call2) = result_of (snd (snd call1)) (fst call1)
       \<and> fst (snd call2) = fst (snd call1)
       \<and> result_of (snd (snd call3)) (fst call3) = result_of (snd (snd call1)) (fst call1)
       \<and> fst (snd call3) = fst (snd call1)"
proof -
  from wt obtain self where self: "extractor_of heap self_r = Some self"
    by (rule well_typed_call_self)
  obtain o1 r1 h1 where c1: "call1 = (o1, r1, h1)"
    by (cases call1)
  obtain o2 r2 h2 where c2: "call2 = (o2, r2, h2)"
    by (cases call2)
  obtain o3 r3 h3 where c3: "call3 = (o3, r3, h3)"
    by (cases call3)
  note ref1 = extract_patches_store_refines [OF wt self c1 [unfolded call1_def]]
  note wt1 = extends_well_typed [OF ref1(1) wt]
  from self wt1(2) have self1: "extractor_of h1 self_r = Some self"
    by simp
  from c2 have run2: "extract_patches_store disk self_r input_img h1 = (o2, r2, h2)"
    by (simp add: call2_def c1)
  note ref2 = extract_patches_store_refines [OF wt1(1) self1 run2]
  from self same(1) have self3: "extractor_of heap' self_r' = Some self"
    by simp
  note ref3 = extract_patches_store_refines [OF wt' self3 c3 [unfolded call3_def]]
  from ref1 ref2 ref3 show ?thesis
    by (simp add: c1 c2 c3 extends_take wt1(3) same(2))
qed

theorem extract_patches_deterministic_pure_witness:
  "well_typed_call example_heap 0 (ImageNdarrayRef 2)
   \<and> well_typed_call example_heap' 2 (ImageNdarrayRef 0)
   \<and> extractor_of example_heap' 2 = extractor_of example_heap 0
   \<and> image_arg_of example_heap' (ImageNdarrayRef 0) = image_arg_of example_heap (ImageNdarrayRef 2)
   \<and> take (length example_heap)
        (snd (snd (extract_patches_store (\<lambda>p. None) 0 (ImageNdarrayRef 2) example_heap)))
      = example_heap
   \<and> (\<exists>patches labs ids.
         result_of
           (snd (snd (extract_patches_store (\<lambda>p. None) 0 (ImageNdarrayRef 2) example_heap)))
           (fst (extract_patches_store (\<lambda>p. None) 0 (ImageNdarrayRef 2) example_heap))
         = Some (Inr (patches, labs, ids))
       \<and> result_of
           (snd (snd (extract_patches_store (\<lambda>p. None) 2 (ImageNdarrayRef 0) example_heap')))
           (fst (extract_patches_store (\<lambda>p. None) 2 (ImageNdarrayRef 0) example_heap'))
         = Some (Inr (patches, labs, ids)))"
proof -
  let ?call1 = "extract_patches_store (\<lambda>p. None) 0 (ImageNdarrayRef 2) example_heap"
  have h: "well_typed_call example_heap 0 (ImageNdarrayRef 2)"
    "well_typed_call example_heap' 2 (ImageNdarrayRef 0)"
    "extractor_of example_heap' 2 = extractor_of example_heap 0"
    "image_arg_of example_heap' (ImageNdarrayRef 0) = image_arg_of example_heap (ImageNdarrayRef 2)"
    by (simp_all add: well_typed_call_def well_typed_points_def well_typed_image_def
        extractor_of_def points_arg_of_def image_arg_of_def lookup_def example_heap_def
        example_heap'_def)
  have self: "extractor_of example_heap 0 = Some (example_extractor 9)"
    by (simp add: extractor_of_def points_arg_of_def lookup_def example_heap_def
        example_extractor_def)
  have img: "image_arg_of example_heap (ImageNdarrayRef 2) = ImageNdarray example_image"
    by (simp add: image_arg_of_def lookup_def example_heap_def)
  obtain outcome reads heap1 where run: "?call1 = (outcome, reads, heap1)"
    by (cases ?call1)
  from extract_patches_store_refines(2) [OF h(1) self run]
  have "result_of heap1 outcome
      = Some (fst (extract_patches (\<lambda>p. None) (example_extractor 9) (ImageNdarray example_image)))"
    by (simp only: img)
  with extract_patches_valid_returns [OF example_valid(1) example_facts]
  obtain patches labs ids where "result_of heap1 outcome = Some (Inr (patches, labs, ids))"
    by auto
  then have res: "result_of (snd (snd ?call1)) (fst ?call1) = Some (Inr (patches, labs, ids))"
    by (simp add: run)
  from extract_patches_deterministic_pure [OF h, of "\<lambda>p. None"] h res show ?thesis
    by auto
qed

end
